theory Spec2Isabelle
  imports Complex_Main
begin

section \<open>Data model\<close>

text \<open>
  The alert lifecycle of \<^verbatim>\<open>backend/models/Alert.js\<close> and the rule engine of
  \<^verbatim>\<open>backend/services/ruleEngine.js\<close>. Mongoose enums are datatypes, documents
  are records, optional paths are \<open>option\<close>s and a Date is its time value in
  milliseconds, an \<open>int\<close>. A JavaScript Number is a double; it is represented by its
  exact value, a \<open>real\<close> (no NaN, no infinities), and every arithmetic operation of the
  source rounds its exact result with the rounding function \<open>fl\<close> of the environment.
\<close>

datatype status = OPEN | ESCALATED | AUTO_CLOSED | RESOLVED

datatype severity = INFO | WARNING | CRITICAL

datatype actor = SYSTEM | USER | RULE_ENGINE | AUTO_CLOSE_JOB

text \<open>
  The values a metadata field can hold: primitives and Dates. \<open>JUndefined\<close> is also
  what reading an absent field gives.
\<close>

datatype jsval = JUndefined | JNull | JBool bool | JNum real | JStr string | JDate int

text \<open>
  Texts stored in \<open>notes\<close>, \<open>closureReason\<close> and history reasons. The three template
  literals of \<open>evaluateAlert\<close> are kept as their parts instead of being rendered:
  \<open>EscalationSummary n s w\<close> is \<^verbatim>\<open>`${n} ${s} alerts detected within ${w} minutes`\<close>,
  \<open>ConditionMet c\<close> is \<^verbatim>\<open>`Condition met: ${c}`\<close> and \<open>AgedBeyond m\<close> is
  \<^verbatim>\<open>`Alert aged beyond ${m} minutes`\<close>.
\<close>

datatype message =
    Plain string
  | EscalationSummary nat string real
  | ConditionMet string
  | AgedBeyond real

text \<open>What a rejected promise or a thrown exception carries.\<close>

datatype error = TypeError | CastError | StoreError

subsection \<open>Rule (\<^verbatim>\<open>models/Rule.js\<close>)\<close>

record conditions =
  escalate_if_count :: "real option"
  window_mins :: "real option"
  auto_close_if :: "string option"
  auto_close_after_mins :: "real option"

record rule =
  ruleId :: string
  sourceType :: string
  enabled :: bool
  priority :: real
  conditions :: conditions

subsection \<open>History entry (\<^verbatim>\<open>models/AlertHistory.js\<close>)\<close>

text \<open>
  The \<open>alert\<close> reference of the schema is the document's \<open>_id\<close>; documents are
  identified by \<open>alertId\<close> here, so the entry keeps that one key. \<open>metadata_rule\<close> is
  the \<^verbatim>\<open>{ rule: ... }\<close> object passed as metadata.
\<close>

record history =
  alertId :: string
  fromStatus :: "status option"
  toStatus :: status
  reason :: "message option"
  triggeredBy :: actor
  userId :: "string option"
  metadata_rule :: "string option"

subsection \<open>Alert (\<^verbatim>\<open>models/Alert.js\<close>)\<close>

record alert =
  alertId :: string
  sourceType :: string
  severity :: severity
  status :: status
  timestamp :: int
  metadata :: "(string \<rightharpoonup> jsval) option"
  escalatedAt :: "int option"
  autoClosedAt :: "int option"
  resolvedAt :: "int option"
  closureReason :: "message option"
  resolvedBy :: "string option"
  "notes" :: "message option"
  expiresAt :: "int option"

section \<open>Alert state machine\<close>

text \<open>A text is falsy in JavaScript exactly when it is the empty string.\<close>

fun message_truthy :: "message \<Rightarrow> bool" where
  "message_truthy (Plain s) = (s \<noteq> [])"
| "message_truthy _ = True"

text \<open>
  \<^verbatim>\<open>reason || 'Auto-escalated by rule engine'\<close>, with \<open>None\<close> for \<open>undefined\<close>.
\<close>

definition reason_or_default :: "message option \<Rightarrow> message" where
  "reason_or_default r =
     (case r of
        None \<Rightarrow> Plain ''Auto-escalated by rule engine''
      | Some m \<Rightarrow> if message_truthy m then m else Plain ''Auto-escalated by rule engine'')"

text \<open>
  The three transition methods. Each takes the reading of the clock that its
  \<^verbatim>\<open>new Date()\<close> makes as the argument \<open>now\<close> and returns the mutated document.
\<close>

definition escalate :: "int \<Rightarrow> message option \<Rightarrow> alert \<Rightarrow> alert" where
  "escalate now r a =
     (if status a = OPEN
      then a\<lparr>status := ESCALATED, severity := CRITICAL, escalatedAt := Some now,
             notes := Some (reason_or_default r)\<rparr>
      else a)"

definition autoClose :: "int \<Rightarrow> message option \<Rightarrow> alert \<Rightarrow> alert" where
  "autoClose now r a =
     (if status a = OPEN \<or> status a = ESCALATED
      then a\<lparr>status := AUTO_CLOSED, autoClosedAt := Some now, closureReason := r\<rparr>
      else a)"

definition resolve :: "int \<Rightarrow> string option \<Rightarrow> message option \<Rightarrow> alert \<Rightarrow> alert" where
  "resolve now uid n a =
     a\<lparr>status := RESOLVED, resolvedAt := Some now, resolvedBy := uid, notes := n\<rparr>"

definition terminal :: "status \<Rightarrow> bool" where
  "terminal st = (st = AUTO_CLOSED \<or> st = RESOLVED)"

section \<open>The environment of one call\<close>

text \<open>
  What the surroundings contribute to one call of \<open>processAlert\<close>: the reading of the
  clock at each place where the source reads it, the two string parsers of the
  JavaScript runtime, the rounding \<open>fl\<close> of an exact result to the nearest double, and
  for each awaited store operation whether its promise is rejected. Theorems quantify
  over the environment, so they hold for every clock, every parser, every rounding and
  every pattern of store failures.
\<close>

record env =
  t_window :: int
  t_condition :: int
  t_age :: int
  t_escalate :: int
  t_autoClose :: int
  Date_parse :: "string \<Rightarrow> int option"
  String_toNumber :: "string \<Rightarrow> real option"
  fl :: "real \<Rightarrow> real"
  find_fails :: bool
  count_fails :: bool
  save_escalated_fails :: bool
  log_escalated_fails :: bool
  save_autoClosed_fails :: bool
  log_autoClosed_fails :: bool

text \<open>
  Every whole number up to \<open>2 ^ 53\<close> in magnitude is a double, so rounding leaves it as it
  is. This is the one property of the rounding that statements about whole minutes need.
\<close>

definition exact_on_integers :: "(real \<Rightarrow> real) \<Rightarrow> bool" where
  "exact_on_integers f = (\<forall>k::int. \<bar>k\<bar> \<le> 2 ^ 53 \<longrightarrow> f (real_of_int k) = real_of_int k)"

section \<open>JavaScript values\<close>

text \<open>Property read: an absent key reads as \<open>undefined\<close>.\<close>

definition js_prop :: "(string \<rightharpoonup> jsval) \<Rightarrow> string \<Rightarrow> jsval" where
  "js_prop m k = (case m k of None \<Rightarrow> JUndefined | Some v \<Rightarrow> v)"

fun truthy :: "jsval \<Rightarrow> bool" where
  "truthy JUndefined = False"
| "truthy JNull = False"
| "truthy (JBool b) = b"
| "truthy (JNum x) = (x \<noteq> 0)"
| "truthy (JStr s) = (s \<noteq> [])"
| "truthy (JDate t) = True"

text \<open>ToNumber; \<open>None\<close> is NaN.\<close>

fun ToNumber :: "env \<Rightarrow> jsval \<Rightarrow> real option" where
  "ToNumber e JUndefined = None"
| "ToNumber e JNull = Some 0"
| "ToNumber e (JBool b) = Some (if b then 1 else 0)"
| "ToNumber e (JNum x) = Some x"
| "ToNumber e (JStr s) = String_toNumber e s"
| "ToNumber e (JDate t) = Some (real_of_int t)"

text \<open>
  TimeClip: a time value is a whole number of milliseconds (truncated towards zero)
  within 8.64e15 of the epoch; \<open>None\<close> is the Invalid Date.
\<close>

definition js_trunc :: "real \<Rightarrow> int" where
  "js_trunc x = (if 0 \<le> x then \<lfloor>x\<rfloor> else \<lceil>x\<rceil>)"

definition TimeClip :: "real \<Rightarrow> int option" where
  "TimeClip x = (if \<bar>x\<bar> > 8640000000000000 then None else Some (js_trunc x))"

text \<open>The time value of \<^verbatim>\<open>new Date(v)\<close>.\<close>

fun new_Date :: "env \<Rightarrow> jsval \<Rightarrow> int option" where
  "new_Date e (JDate t) = Some t"
| "new_Date e (JStr s) = Date_parse e s"
| "new_Date e v = (case ToNumber e v of None \<Rightarrow> None | Some x \<Rightarrow> TimeClip x)"

text \<open>Strings compare by code units, lexicographically.\<close>

fun str_less :: "string \<Rightarrow> string \<Rightarrow> bool" where
  "str_less [] [] = False"
| "str_less [] (y # ys) = True"
| "str_less (x # xs) [] = False"
| "str_less (x # xs) (y # ys) =
     ((of_char x :: nat) < of_char y \<or> (x = y \<and> str_less xs ys))"

text \<open>
  The abstract relational comparison \<open>x < y\<close>: \<open>None\<close> is its \<open>undefined\<close> result
  (an operand is NaN). The operators \<^verbatim>\<open><=\<close>, \<^verbatim>\<open>>=\<close> and \<^verbatim>\<open>>\<close> are derived from it
  as the language defines them.
\<close>

definition js_less :: "env \<Rightarrow> jsval \<Rightarrow> jsval \<Rightarrow> bool option" where
  "js_less e x y =
     (case (x, y) of
        (JStr s, JStr t) \<Rightarrow> Some (str_less s t)
      | _ \<Rightarrow> (case (ToNumber e x, ToNumber e y) of
                 (Some a, Some b) \<Rightarrow> Some (a < b)
               | _ \<Rightarrow> None))"

definition js_le :: "env \<Rightarrow> jsval \<Rightarrow> jsval \<Rightarrow> bool" where
  "js_le e x y = (case js_less e y x of Some False \<Rightarrow> True | _ \<Rightarrow> False)"

definition js_ge :: "env \<Rightarrow> jsval \<Rightarrow> jsval \<Rightarrow> bool" where
  "js_ge e x y = (case js_less e x y of Some False \<Rightarrow> True | _ \<Rightarrow> False)"

section \<open>Rule engine\<close>

subsection \<open>State\<close>

text \<open>
  The engine's own fields (\<open>rules\<close>, \<open>initialized\<close>) and the collaborators it talks to:
  the cache entry \<^verbatim>\<open>rules:all\<close>, the Rule collection, the Alert collection and the
  AlertHistory collection (in insertion order).
\<close>

record state =
  rules :: "string \<rightharpoonup> rule"
  initialized :: bool
  rulesCache :: "rule list option"
  ruleStore :: "rule list"
  alertStore :: "alert list"
  historyLog :: "history list"

subsection \<open>initialize\<close>

text \<open>
  \<^verbatim>\<open>Rule.find({ enabled: true }).sort({ priority: -1 })\<close>. Rules of equal priority keep
  their stored order here; the database promises no order among them.
\<close>

definition Rule_find_enabled :: "rule list \<Rightarrow> rule list" where
  "Rule_find_enabled rs = sort_key (\<lambda>r. - priority r) (filter enabled rs)"

text \<open>\<^verbatim>\<open>this.rules.clear(); rules.forEach(rule => this.rules.set(rule.sourceType, rule))\<close>\<close>

definition build_index :: "rule list \<Rightarrow> (string \<rightharpoonup> rule)" where
  "build_index rs = fold (\<lambda>r m. m(rule.sourceType r \<mapsto> r)) rs Map.empty"

text \<open>
  The list that \<open>initialize\<close> iterates: the cached one when the cache is warm, the result
  of the query otherwise.
\<close>

definition loaded_rules :: "state \<Rightarrow> rule list" where
  "loaded_rules s =
     (case rulesCache s of Some rs \<Rightarrow> rs | None \<Rightarrow> Rule_find_enabled (ruleStore s))"

definition initialize :: "env \<Rightarrow> state \<Rightarrow> (error + unit) \<times> state" where
  "initialize e s =
     (case rulesCache s of
        Some rs \<Rightarrow> (Inr (), s\<lparr>rules := build_index rs, initialized := True\<rparr>)
      | None \<Rightarrow>
          if find_fails e then (Inl StoreError, s)
          else let rs = Rule_find_enabled (ruleStore s)
               in (Inr (), s\<lparr>rulesCache := Some rs, rules := build_index rs,
                             initialized := True\<rparr>))"

definition getRule :: "state \<Rightarrow> string \<Rightarrow> rule option" where
  "getRule s st = rules s st"

subsection \<open>evaluateCloseCondition\<close>

text \<open>
  The result is the truthiness of what the source returns: for \<open>document_valid\<close> the
  expression can yield a falsy non-boolean (the value of \<open>expiryDate\<close> itself), and the
  only caller tests it with \<^verbatim>\<open>if\<close>. Comparing with an Invalid Date is false.
\<close>

definition evaluateCloseCondition :: "env \<Rightarrow> string \<Rightarrow> (string \<rightharpoonup> jsval) \<Rightarrow> bool" where
  "evaluateCloseCondition e condition md =
     (if condition = ''document_valid'' then
        js_prop md ''documentValid'' = JBool True \<or>
        (truthy (js_prop md ''expiryDate'') \<and>
         (case new_Date e (js_prop md ''expiryDate'') of
            None \<Rightarrow> False
          | Some t \<Rightarrow> t_condition e < t))
      else if condition = ''speed_normalized'' then
        js_le e (js_prop md ''speed'') (js_prop md ''speedLimit'')
      else if condition = ''feedback_improved'' then
        js_ge e (js_prop md ''feedbackRating'') (JNum 3)
      else js_prop md condition = JBool True)"

subsection \<open>The count query\<close>

text \<open>
  \<^verbatim>\<open>Alert.countDocuments({ sourceType, 'metadata.driverId': ..., timestamp: { $gte:
  windowStart }, status: { $in: ['OPEN', 'ESCALATED'] } })\<close> over the stored alerts. The
  database has no \<open>undefined\<close>: an absent path and \<open>null\<close> match alike.
\<close>

definition stored_value :: "jsval \<Rightarrow> jsval" where
  "stored_value v = (if v = JUndefined then JNull else v)"

definition driverId_of :: "alert \<Rightarrow> jsval" where
  "driverId_of d = (case metadata d of None \<Rightarrow> JUndefined | Some m \<Rightarrow> js_prop m ''driverId'')"

definition countDocuments :: "string \<Rightarrow> jsval \<Rightarrow> int \<Rightarrow> alert list \<Rightarrow> nat" where
  "countDocuments st driver windowStart store =
     length (filter (\<lambda>d. alert.sourceType d = st
                        \<and> stored_value (driverId_of d) = stored_value driver
                        \<and> windowStart \<le> timestamp d
                        \<and> (status d = OPEN \<or> status d = ESCALATED)) store)"

text \<open>
  For comparison, the count as the specification words it: stored alerts with status
  OPEN or ESCALATED, the same source type and the same driver, whose timestamp lies in
  the closed window from \<open>now\<close> minus \<open>w\<close> minutes to \<open>now\<close>.
\<close>

definition spec_window_count :: "int \<Rightarrow> real \<Rightarrow> alert \<Rightarrow> alert list \<Rightarrow> nat" where
  "spec_window_count now w a store =
     length (filter (\<lambda>d. (status d = OPEN \<or> status d = ESCALATED)
                        \<and> alert.sourceType d = alert.sourceType a
                        \<and> stored_value (driverId_of d) = stored_value (driverId_of a)
                        \<and> real_of_int now - w * 60000 \<le> real_of_int (timestamp d)
                        \<and> timestamp d \<le> now) store)"

subsection \<open>evaluateAlert\<close>

record evaluation =
  shouldEscalate :: bool
  shouldAutoClose :: bool
  reason :: "message option"
  rule :: "rule option"

text \<open>\<^verbatim>\<open>{ shouldEscalate: false, shouldAutoClose: false }\<close>: no reason, no rule.\<close>

definition no_action :: evaluation where
  "no_action = \<lparr>shouldEscalate = False, shouldAutoClose = False, reason = None, rule = None\<rparr>"

text \<open>
  The block under ``Check escalation conditions''. It yields the values of
  \<open>shouldEscalate\<close> and \<open>reason\<close> after the block, which start as \<open>false\<close> and the empty
  string. The window start is \<^verbatim>\<open>new Date(Date.now() - conditions.window_mins * 60 * 1000)\<close>:
  two products and a difference, each rounded, then the Date's truncation. Building the
  query reads \<^verbatim>\<open>alert.metadata.driverId\<close>, a TypeError without metadata; an Invalid
  Date as window start fails the cast of the query.
\<close>

definition escalation_check ::
  "env \<Rightarrow> conditions \<Rightarrow> alert \<Rightarrow> alert list \<Rightarrow> error + bool \<times> message" where
  "escalation_check e c a store =
     (case (escalate_if_count c, window_mins c) of
        (Some n, Some w) \<Rightarrow>
          if n \<noteq> 0 \<and> w \<noteq> 0 then
            (case metadata a of
               None \<Rightarrow> Inl TypeError
             | Some md \<Rightarrow>
                 (case TimeClip (fl e (real_of_int (t_window e) - fl e (fl e (w * 60) * 1000))) of
                    None \<Rightarrow> Inl CastError
                  | Some windowStart \<Rightarrow>
                      if count_fails e then Inl StoreError
                      else
                        let alertCount = countDocuments (alert.sourceType a)
                                           (js_prop md ''driverId'') windowStart store
                        in if n \<le> real alertCount
                           then Inr (True, EscalationSummary alertCount (alert.sourceType a) w)
                           else Inr (False, Plain [])))
          else Inr (False, Plain [])
      | _ \<Rightarrow> Inr (False, Plain []))"

text \<open>
  The block under ``Check auto-close conditions'': from the current \<open>shouldAutoClose\<close>
  and \<open>reason\<close> to the ones after it.
\<close>

definition close_condition_check ::
  "env \<Rightarrow> conditions \<Rightarrow> alert \<Rightarrow> bool \<times> message \<Rightarrow> bool \<times> message" where
  "close_condition_check e c a cur =
     (case (auto_close_if c, metadata a) of
        (Some cond, Some md) \<Rightarrow>
          if cond \<noteq> [] \<and> evaluateCloseCondition e cond md then (True, ConditionMet cond)
          else cur
      | _ \<Rightarrow> cur)"

text \<open>
  The block under ``Check time-based auto-close''. The age is
  \<^verbatim>\<open>(Date.now() - alert.timestamp) / (1000 * 60)\<close>: a difference and a quotient, each
  rounded; the divisor is the double 60000.
\<close>

definition age_check :: "env \<Rightarrow> conditions \<Rightarrow> alert \<Rightarrow> bool \<times> message \<Rightarrow> bool \<times> message" where
  "age_check e c a cur =
     (case auto_close_after_mins c of
        Some m \<Rightarrow>
          if m \<noteq> 0
             \<and> m \<le> fl e (fl e (real_of_int (t_age e) - real_of_int (timestamp a)) / (1000 * 60))
          then (True, AgedBeyond m)
          else cur
      | None \<Rightarrow> cur)"

definition evaluateAlert :: "env \<Rightarrow> alert \<Rightarrow> state \<Rightarrow> (error + evaluation) \<times> state" where
  "evaluateAlert e a s =
     (case (if initialized s then (Inr (), s) else initialize e s) of
        (Inl err, s') \<Rightarrow> (Inl err, s')
      | (Inr _, s') \<Rightarrow>
          (case getRule s' (alert.sourceType a) of
             None \<Rightarrow> (Inr no_action, s')
           | Some r \<Rightarrow>
               if \<not> enabled r then (Inr no_action, s')
               else
                 (case escalation_check e (conditions r) a (alertStore s') of
                    Inl err \<Rightarrow> (Inl err, s')
                  | Inr (esc, reason1) \<Rightarrow>
                      (case age_check e (conditions r) a
                              (close_condition_check e (conditions r) a (False, reason1)) of
                         (cls, reason3) \<Rightarrow>
                           (Inr \<lparr>shouldEscalate = esc, shouldAutoClose = cls,
                                 reason = Some reason3, rule = Some r\<rparr>, s')))))"

subsection \<open>processAlert\<close>

text \<open>
  \<^verbatim>\<open>alert.save()\<close> writes the document over its stored copy, and
  \<^verbatim>\<open>AlertHistory.logTransition\<close> appends one entry, unless the environment rejects the
  operation; a rejected operation leaves the store as it was.
\<close>

definition save :: "bool \<Rightarrow> alert \<Rightarrow> state \<Rightarrow> (error + unit) \<times> state" where
  "save fails a s =
     (if fails then (Inl StoreError, s)
      else (Inr (), s\<lparr>alertStore :=
                        map (\<lambda>d. if alert.alertId d = alert.alertId a then a else d)
                            (alertStore s)\<rparr>))"

definition logTransition :: "bool \<Rightarrow> history \<Rightarrow> state \<Rightarrow> (error + unit) \<times> state" where
  "logTransition fails h s =
     (if fails then (Inl StoreError, s)
      else (Inr (), s\<lparr>historyLog := historyLog s @ [h]\<rparr>))"

text \<open>The entry both branches of \<open>processAlert\<close> log, for the rule engine as actor.\<close>

definition engine_entry :: "alert \<Rightarrow> status \<Rightarrow> status \<Rightarrow> evaluation \<Rightarrow> history" where
  "engine_entry a old new ev =
     \<lparr>history.alertId = alert.alertId a, fromStatus = Some old, toStatus = new,
      history.reason = evaluation.reason ev, triggeredBy = RULE_ENGINE, userId = None,
      metadata_rule = map_option ruleId (rule ev)\<rparr>"

text \<open>
  The two \<^verbatim>\<open>if\<close> blocks of the \<^verbatim>\<open>try\<close> body. Each yields the value of \<open>modified\<close>
  after it, or the exception that leaves the body, together with the document as
  mutated so far and the state of the stores.
\<close>

definition escalate_branch ::
  "env \<Rightarrow> evaluation \<Rightarrow> alert \<Rightarrow> state \<Rightarrow> (error + bool) \<times> alert \<times> state" where
  "escalate_branch e ev a s =
     (if shouldEscalate ev \<and> status a = OPEN then
        let oldStatus = status a;
            a' = escalate (t_escalate e) (evaluation.reason ev) a
        in (case save (save_escalated_fails e) a' s of
              (Inl err, s') \<Rightarrow> (Inl err, a', s')
            | (Inr _, s') \<Rightarrow>
                (case logTransition (log_escalated_fails e)
                        (engine_entry a' oldStatus ESCALATED ev) s' of
                   (Inl err, s'') \<Rightarrow> (Inl err, a', s'')
                 | (Inr _, s'') \<Rightarrow> (Inr True, a', s'')))
      else (Inr False, a, s))"

definition autoClose_branch ::
  "env \<Rightarrow> evaluation \<Rightarrow> bool \<Rightarrow> alert \<Rightarrow> state \<Rightarrow> (error + bool) \<times> alert \<times> state" where
  "autoClose_branch e ev modified a s =
     (if shouldAutoClose ev \<and> (status a = OPEN \<or> status a = ESCALATED) then
        let oldStatus = status a;
            a' = autoClose (t_autoClose e) (evaluation.reason ev) a
        in (case save (save_autoClosed_fails e) a' s of
              (Inl err, s') \<Rightarrow> (Inl err, a', s')
            | (Inr _, s') \<Rightarrow>
                (case logTransition (log_autoClosed_fails e)
                        (engine_entry a' oldStatus AUTO_CLOSED ev) s' of
                   (Inl err, s'') \<Rightarrow> (Inl err, a', s'')
                 | (Inr _, s'') \<Rightarrow> (Inr True, a', s'')))
      else (Inr modified, a, s))"

text \<open>
  \<^verbatim>\<open>{ success: true, modified, evaluation }\<close> or, from the \<^verbatim>\<open>catch\<close>,
  \<^verbatim>\<open>{ success: false, error }\<close>. The call also yields the document as it has been
  mutated in place, which the caller reads afterwards.
\<close>

datatype result = Success bool evaluation | Failure error

definition processAlert :: "env \<Rightarrow> alert \<Rightarrow> state \<Rightarrow> result \<times> alert \<times> state" where
  "processAlert e a s =
     (case evaluateAlert e a s of
        (Inl err, s1) \<Rightarrow> (Failure err, a, s1)
      | (Inr ev, s1) \<Rightarrow>
          (case escalate_branch e ev a s1 of
             (Inl err, a2, s2) \<Rightarrow> (Failure err, a2, s2)
           | (Inr m, a2, s2) \<Rightarrow>
               (case autoClose_branch e ev m a2 s2 of
                  (Inl err, a3, s3) \<Rightarrow> (Failure err, a3, s3)
                | (Inr m', a3, s3) \<Rightarrow> (Success m' ev, a3, s3))))"

subsection \<open>processBatch\<close>

record results =
  processed :: nat
  escalated :: nat
  autoClosed :: nat
  errors :: nat

text \<open>
  The accounting of one iteration: the result of \<open>processAlert\<close> and the document as it
  is afterwards, added to the counters.
\<close>

definition tally :: "result \<Rightarrow> alert \<Rightarrow> results \<Rightarrow> results" where
  "tally r a res =
     (case r of
        Success modified ev \<Rightarrow>
          let r1 = res\<lparr>processed := processed res + 1\<rparr>
          in if modified then
               let r2 = (if status a = ESCALATED then r1\<lparr>escalated := escalated r1 + 1\<rparr>
                         else r1)
               in (if status a = AUTO_CLOSED then r2\<lparr>autoClosed := autoClosed r2 + 1\<rparr>
                   else r2)
             else r1
      | Failure err \<Rightarrow> res\<lparr>errors := errors res + 1\<rparr>)"

text \<open>
  The \<^verbatim>\<open>for\<close> loop. The \<open>i\<close>-th alert of the batch is processed in the environment
  \<open>es i\<close>. \<open>processAlert\<close> turns every exception of its body into a \<open>Failure\<close>, so the
  loop's own \<^verbatim>\<open>catch\<close> has nothing to catch and the loop has no exit but its end.
\<close>

fun processBatch_loop ::
  "(nat \<Rightarrow> env) \<Rightarrow> alert list \<Rightarrow> results \<Rightarrow> state \<Rightarrow> results \<times> state" where
  "processBatch_loop es [] res s = (res, s)"
| "processBatch_loop es (a # as) res s =
     (case processAlert (es 0) a s of
        (r, a', s') \<Rightarrow> processBatch_loop (\<lambda>i. es (Suc i)) as (tally r a' res) s')"

definition processBatch :: "(nat \<Rightarrow> env) \<Rightarrow> alert list \<Rightarrow> state \<Rightarrow> results \<times> state" where
  "processBatch es alerts s =
     processBatch_loop es alerts
       \<lparr>processed = 0, escalated = 0, autoClosed = 0, errors = 0\<rparr> s"

text \<open>The results of \<open>processAlert\<close> for the alerts of a batch, in order.\<close>

fun batch_outcomes :: "(nat \<Rightarrow> env) \<Rightarrow> alert list \<Rightarrow> state \<Rightarrow> result list" where
  "batch_outcomes es [] s = []"
| "batch_outcomes es (a # as) s =
     (case processAlert (es 0) a s of
        (r, a', s') \<Rightarrow> r # batch_outcomes (\<lambda>i. es (Suc i)) as s')"

fun succeeded :: "result \<Rightarrow> bool" where
  "succeeded (Success m ev) = True"
| "succeeded (Failure err) = False"

text \<open>
  The same, each result with the document as \<open>processAlert\<close> left it, which is the
  document the loop reads the status of; and the \<open>modified\<close> flag of a result.
\<close>

fun batch_trace :: "(nat \<Rightarrow> env) \<Rightarrow> alert list \<Rightarrow> state \<Rightarrow> (result \<times> alert) list" where
  "batch_trace es [] s = []"
| "batch_trace es (a # as) s =
     (case processAlert (es 0) a s of
        (r, a', s') \<Rightarrow> (r, a') # batch_trace (\<lambda>i. es (Suc i)) as s')"

fun was_modified :: "result \<Rightarrow> bool" where
  "was_modified (Success m ev) = m"
| "was_modified (Failure err) = False"

text \<open>An entry of the history log that records the transition from OPEN to ESCALATED.\<close>

definition open_to_escalated :: "history \<Rightarrow> bool" where
  "open_to_escalated h = (fromStatus h = Some OPEN \<and> toStatus h = ESCALATED)"

section \<open>Sample data\<close>

text \<open>
  Two rules of \<^verbatim>\<open>backend/seed.js\<close>, a second overspeed rule of lower priority, and an
  environment in which every clock read gives \<open>now\<close>, no string parses, no store
  operation fails and no result is rounded: the samples compute with whole numbers of
  minutes and milliseconds, which doubles hold exactly.
\<close>

definition seed_overspeed_rule :: rule where
  "seed_overspeed_rule =
     \<lparr>ruleId = ''RULE_OVERSPEED_001'', sourceType = ''overspeed'', enabled = True,
      priority = 10,
      conditions = \<lparr>escalate_if_count = Some 3, window_mins = Some 60,
                     auto_close_if = None, auto_close_after_mins = Some 1440\<rparr>\<rparr>"

definition seed_compliance_rule :: rule where
  "seed_compliance_rule =
     \<lparr>ruleId = ''RULE_COMPLIANCE_001'', sourceType = ''compliance'', enabled = True,
      priority = 8,
      conditions = \<lparr>escalate_if_count = None, window_mins = None,
                     auto_close_if = Some ''document_valid'',
                     auto_close_after_mins = Some 10080\<rparr>\<rparr>"

definition low_overspeed_rule :: rule where
  "low_overspeed_rule =
     \<lparr>ruleId = ''RULE_OVERSPEED_002'', sourceType = ''overspeed'', enabled = True,
      priority = 5,
      conditions = \<lparr>escalate_if_count = Some 1, window_mins = Some 60,
                     auto_close_if = Some ''speed_normalized'',
                     auto_close_after_mins = None\<rparr>\<rparr>"

definition calm :: "int \<Rightarrow> env" where
  "calm now =
     \<lparr>t_window = now, t_condition = now, t_age = now, t_escalate = now, t_autoClose = now,
      Date_parse = (\<lambda>s. None), String_toNumber = (\<lambda>s. None), fl = (\<lambda>x. x),
      find_fails = False, count_fails = False,
      save_escalated_fails = False, log_escalated_fails = False,
      save_autoClosed_fails = False, log_autoClosed_fails = False\<rparr>"

text \<open>An alert as \<open>createAlert\<close> stores it, and an engine that has loaded \<open>rs\<close>.\<close>

definition new_alert :: "string \<Rightarrow> string \<Rightarrow> int \<Rightarrow> (string \<rightharpoonup> jsval) \<Rightarrow> alert" where
  "new_alert aid st ts md =
     \<lparr>alertId = aid, sourceType = st, severity = INFO, status = OPEN, timestamp = ts,
      metadata = Some md, escalatedAt = None, autoClosedAt = None, resolvedAt = None,
      closureReason = None, resolvedBy = None, notes = None, expiresAt = None\<rparr>"

definition engine_with :: "rule list \<Rightarrow> alert list \<Rightarrow> state" where
  "engine_with rs store =
     \<lparr>rules = build_index rs, initialized = True, rulesCache = Some rs, ruleStore = rs,
      alertStore = store, historyLog = []\<rparr>"

definition cold_engine :: "rule list \<Rightarrow> state" where
  "cold_engine rs =
     \<lparr>rules = Map.empty, initialized = False, rulesCache = None, ruleStore = rs,
      alertStore = [], historyLog = []\<rparr>"

text \<open>An overspeed alert of driver DRV001, and a compliance alert with an expiry date.\<close>

definition overspeed_alert :: "string \<Rightarrow> int \<Rightarrow> alert" where
  "overspeed_alert aid ts = new_alert aid ''overspeed'' ts [''driverId'' \<mapsto> JStr ''DRV001'']"

definition renewed_alert :: "int \<Rightarrow> int \<Rightarrow> alert" where
  "renewed_alert ts expiry =
     new_alert ''ALT-C'' ''compliance'' ts
       [''driverId'' \<mapsto> JStr ''DRV002'', ''expiryDate'' \<mapsto> JDate expiry]"

text \<open>An overspeed alert whose recorded speed is within the limit.\<close>

definition slow_alert :: "int \<Rightarrow> alert" where
  "slow_alert ts =
     new_alert ''ALT-S'' ''overspeed'' ts
       [''driverId'' \<mapsto> JStr ''DRV001'', ''speed'' \<mapsto> JNum 50, ''speedLimit'' \<mapsto> JNum 60]"

text \<open>
  Five overspeed alerts long past the auto-close age, and environments for a batch: one
  in which saving the third auto-closed document fails, one in which the history write
  of every auto-closure is rejected, and one in which nothing fails.
\<close>

definition third_save_fails :: "nat \<Rightarrow> env" where
  "third_save_fails i = (calm 100000000)\<lparr>save_autoClosed_fails := (i = 2)\<rparr>"

definition closure_log_rejected :: "nat \<Rightarrow> env" where
  "closure_log_rejected i = (calm 6000000)\<lparr>log_autoClosed_fails := True\<rparr>"

definition every_call_calm :: "nat \<Rightarrow> env" where
  "every_call_calm i = calm 6000000"

definition stale_batch :: "alert list" where
  "stale_batch =
     [overspeed_alert ''B1'' 1000, overspeed_alert ''B2'' 2000, overspeed_alert ''B3'' 3000,
      overspeed_alert ''B4'' 4000, overspeed_alert ''B5'' 5000]"

section \<open>The rule index\<close>

lemma fold_index:
  "fold (\<lambda>r m. m(rule.sourceType r \<mapsto> r)) rs m k =
     (case filter (\<lambda>r. rule.sourceType r = k) rs of
        [] \<Rightarrow> m k
      | x # xs \<Rightarrow> Some (last (x # xs)))"
  by (induction rs arbitrary: m) (auto split: list.splits)

lemma build_index_last:
  "build_index rs k =
     (if filter (\<lambda>r. rule.sourceType r = k) rs = [] then None
      else Some (last (filter (\<lambda>r. rule.sourceType r = k) rs)))"
  unfolding build_index_def fold_index by (simp split: list.splits)

lemma sorted_wrt_last:
  "sorted_wrt R xs \<Longrightarrow> x \<in> set xs \<Longrightarrow> x = last xs \<or> R x (last xs)"
  by (induction xs) auto

lemma Rule_find_enabled_sorted:
  "sorted_wrt (\<lambda>a b. priority b \<le> priority a) (Rule_find_enabled rs)"
proof -
  have "sorted (map (\<lambda>r. - priority r) (Rule_find_enabled rs))"
    unfolding Rule_find_enabled_def by (rule sorted_sort_key)
  then show ?thesis by (simp add: sorted_map)
qed

lemma initialize_rules:
  "initialize e s = (Inr u, s') \<Longrightarrow> rules s' = build_index (loaded_rules s) \<and> initialized s'"
  by (auto simp: initialize_def loaded_rules_def Let_def split: option.splits if_splits)

lemma initialize_cold:
  "\<not> find_fails e \<Longrightarrow> rulesCache s = None \<Longrightarrow>
     initialize e s = (Inr (), snd (initialize e s))"
  by (simp add: initialize_def Let_def)

text \<open>
  C3. Whenever \<open>initialize\<close> succeeds on a list of rules ordered by priority descending
  (the cached list, or the result of the query), each source type that occurs in the list
  is indexed to the last rule of that type in the list, which has the lowest priority
  among the rules of that type.
\<close>

theorem initialize_retains_lowest_priority:
  assumes init: "initialize e s = (Inr u, s')"
      and sorted: "sorted_wrt (\<lambda>a b. priority b \<le> priority a) (loaded_rules s)"
      and mem: "r \<in> set (loaded_rules s)"
  shows "\<exists>r'. rules s' (rule.sourceType r) = Some r'
            \<and> r' = last (filter (\<lambda>x. rule.sourceType x = rule.sourceType r) (loaded_rules s))
            \<and> r' \<in> set (loaded_rules s)
            \<and> rule.sourceType r' = rule.sourceType r
            \<and> (\<forall>x \<in> set (loaded_rules s).
                  rule.sourceType x = rule.sourceType r \<longrightarrow> priority r' \<le> priority x)"
proof -
  let ?same = "filter (\<lambda>x. rule.sourceType x = rule.sourceType r) (loaded_rules s)"
  have ne: "?same \<noteq> []" using mem by (auto simp: filter_empty_conv)
  have idx: "rules s' (rule.sourceType r) = Some (last ?same)"
    using initialize_rules [OF init] ne by (simp add: build_index_last)
  have in_same: "last ?same \<in> set ?same" using ne by (rule last_in_set)
  have srt: "sorted_wrt (\<lambda>a b. priority b \<le> priority a) ?same"
    using sorted by (rule sorted_wrt_filter)
  have low: "priority (last ?same) \<le> priority x"
    if "x \<in> set (loaded_rules s)" "rule.sourceType x = rule.sourceType r" for x
  proof -
    from that have "x \<in> set ?same" by simp
    from sorted_wrt_last [OF srt this] show ?thesis by auto
  qed
  from idx in_same low show ?thesis by auto
qed

text \<open>
  With the overspeed rules of priorities 10 and 5 in the store, the engine ends up with
  the one of priority 5.
\<close>

theorem initialize_retains_lowest_priority_witness:
  "rules (snd (initialize (calm 0)
                 (cold_engine [seed_overspeed_rule, seed_compliance_rule, low_overspeed_rule])))
     ''overspeed'' = Some low_overspeed_rule"
proof -
  let ?s = "cold_engine [seed_overspeed_rule, seed_compliance_rule, low_overspeed_rule]"
  have init: "initialize (calm 0) ?s = (Inr (), snd (initialize (calm 0) ?s))"
    by (rule initialize_cold) (simp_all add: calm_def cold_engine_def)
  have loaded: "loaded_rules ?s = [seed_overspeed_rule, seed_compliance_rule, low_overspeed_rule]"
    by (simp add: loaded_rules_def cold_engine_def Rule_find_enabled_def
          seed_overspeed_rule_def seed_compliance_rule_def low_overspeed_rule_def)
  have sorted: "sorted_wrt (\<lambda>a b. priority b \<le> priority a) (loaded_rules ?s)"
    unfolding loaded
    by (simp add: seed_overspeed_rule_def seed_compliance_rule_def low_overspeed_rule_def)
  have mem: "seed_overspeed_rule \<in> set (loaded_rules ?s)"
    unfolding loaded by simp
  from initialize_retains_lowest_priority [OF init sorted mem]
  show ?thesis
    unfolding loaded
    by (simp add: seed_overspeed_rule_def seed_compliance_rule_def low_overspeed_rule_def)
qed

section \<open>Terminal alerts\<close>

lemma evaluateAlert_stores:
  "alertStore (snd (evaluateAlert e a s)) = alertStore s
   \<and> historyLog (snd (evaluateAlert e a s)) = historyLog s"
  by (auto simp: evaluateAlert_def initialize_def Let_def
           split: option.splits sum.splits prod.splits if_splits)

lemma escalate_branch_not_open:
  "status a \<noteq> OPEN \<Longrightarrow> escalate_branch e ev a s = (Inr False, a, s)"
  by (simp add: escalate_branch_def)

lemma autoClose_branch_terminal:
  "terminal (status a) \<Longrightarrow> autoClose_branch e ev m a s = (Inr m, a, s)"
  by (auto simp: autoClose_branch_def terminal_def)

lemma processAlert_terminal:
  "terminal (status a) \<Longrightarrow> snd (processAlert e a s) = (a, snd (evaluateAlert e a s))"
  by (cases "evaluateAlert e a s")
     (auto simp: processAlert_def escalate_branch_not_open autoClose_branch_terminal
                 terminal_def split: sum.splits)

text \<open>
  C1. For an alert in a terminal status (AUTO_CLOSED or RESOLVED), \<open>processAlert\<close> returns
  the document unchanged and writes neither to the alert store nor to the history log;
  \<open>evaluateAlert\<close> never writes to either. The escalate branch and \<open>escalate\<close> do nothing
  unless the status is OPEN; the auto-close branch and \<open>autoClose\<close> do nothing on a
  terminal status, that is unless the status is OPEN or ESCALATED.
\<close>

theorem terminal_alert_unchanged:
  "(status a \<noteq> OPEN \<longrightarrow>
      escalate t r a = a \<and> escalate_branch e ev a s = (Inr False, a, s))
   \<and> (terminal (status a) \<longleftrightarrow> \<not> (status a = OPEN \<or> status a = ESCALATED))
   \<and> (terminal (status a) \<longrightarrow>
      autoClose t r a = a \<and> autoClose_branch e ev m a s = (Inr m, a, s))
   \<and> (terminal (status a) \<longrightarrow>
      fst (snd (processAlert e a s)) = a
      \<and> alertStore (snd (snd (processAlert e a s))) = alertStore s
      \<and> historyLog (snd (snd (processAlert e a s))) = historyLog s)
   \<and> alertStore (snd (evaluateAlert e a s)) = alertStore s
   \<and> historyLog (snd (evaluateAlert e a s)) = historyLog s"
proof -
  have guards: "status a \<noteq> OPEN \<longrightarrow> escalate t r a = a"
    "terminal (status a) \<longrightarrow> autoClose t r a = a"
    by (auto simp: escalate_def autoClose_def terminal_def)
  have four: "terminal (status a) \<longleftrightarrow> \<not> (status a = OPEN \<or> status a = ESCALATED)"
    by (cases "status a") (simp_all add: terminal_def)
  show ?thesis
    using guards four evaluateAlert_stores [of e a s]
    by (simp add: escalate_branch_not_open autoClose_branch_terminal processAlert_terminal)
qed

text \<open>
  A RESOLVED overspeed alert, old enough for the seed rule to ask for auto-closure, comes
  back from \<open>processAlert\<close> as it went in.
\<close>

theorem terminal_alert_unchanged_witness:
  "terminal (status ((new_alert ''ALT-1'' ''overspeed'' 0 Map.empty)\<lparr>status := RESOLVED\<rparr>))
   \<and> fst (snd (processAlert (calm 100000000)
                  ((new_alert ''ALT-1'' ''overspeed'' 0 Map.empty)\<lparr>status := RESOLVED\<rparr>)
                  (engine_with [seed_overspeed_rule]
                     [(new_alert ''ALT-1'' ''overspeed'' 0 Map.empty)\<lparr>status := RESOLVED\<rparr>])))
       = (new_alert ''ALT-1'' ''overspeed'' 0 Map.empty)\<lparr>status := RESOLVED\<rparr>"
  using terminal_alert_unchanged
          [of "(new_alert ''ALT-1'' ''overspeed'' 0 Map.empty)\<lparr>status := RESOLVED\<rparr>"
              0 None "calm 100000000" no_action
              "engine_with [seed_overspeed_rule]
                 [(new_alert ''ALT-1'' ''overspeed'' 0 Map.empty)\<lparr>status := RESOLVED\<rparr>]"
              False]
  by (simp add: terminal_def new_alert_def)

section \<open>Manual resolution\<close>

text \<open>
  C9. \<open>resolve\<close> has no guard: whatever the current status, it sets the status to
  RESOLVED, the resolve timestamp to now, and records the actor and the notes; the
  status it starts from plays no part in the result. By contrast \<open>escalate\<close> and
  \<open>autoClose\<close> leave an alert in AUTO_CLOSED or RESOLVED as it is.
\<close>

theorem resolve_unconditional:
  "status (resolve now uid n a) = RESOLVED
   \<and> resolvedAt (resolve now uid n a) = Some now
   \<and> resolvedBy (resolve now uid n a) = uid
   \<and> notes (resolve now uid n a) = n
   \<and> resolve now uid n (a\<lparr>status := st\<rparr>) = resolve now uid n a
   \<and> escalate t r (a\<lparr>status := RESOLVED\<rparr>) = a\<lparr>status := RESOLVED\<rparr>
   \<and> escalate t r (a\<lparr>status := AUTO_CLOSED\<rparr>) = a\<lparr>status := AUTO_CLOSED\<rparr>
   \<and> autoClose t r (a\<lparr>status := RESOLVED\<rparr>) = a\<lparr>status := RESOLVED\<rparr>
   \<and> autoClose t r (a\<lparr>status := AUTO_CLOSED\<rparr>) = a\<lparr>status := AUTO_CLOSED\<rparr>"
  by (simp add: resolve_def escalate_def autoClose_def)

section \<open>Close conditions\<close>

lemma js_prop_eq_True: "js_prop md k = JBool True \<longleftrightarrow> md k = Some (JBool True)"
  by (simp add: js_prop_def split: option.splits)

lemma js_le_num: "js_le e (JNum x) (JNum y) \<longleftrightarrow> x \<le> y"
  by (auto simp: js_le_def js_less_def split: bool.splits)

lemma js_ge_num: "js_ge e (JNum x) (JNum y) \<longleftrightarrow> y \<le> x"
  by (auto simp: js_ge_def js_less_def split: bool.splits)

lemma js_less_undefined: "js_less e JUndefined v = None" "js_less e v JUndefined = None"
  by (cases v; simp add: js_less_def split: option.splits)+

lemma falsy_date:
  assumes "0 \<le> t_condition e" "Date_parse e [] = None" "\<not> truthy v"
  shows "\<not> (\<exists>t. new_Date e v = Some t \<and> t_condition e < t)"
  using assms by (cases v) (auto simp: TimeClip_def js_trunc_def)

text \<open>
  C8. The catalogue of close conditions, for every metadata map. \<open>document_valid\<close> holds
  iff \<open>documentValid\<close> is the boolean true, or \<open>expiryDate\<close> is set (truthy) and, as a
  Date, lies strictly after now; when the clock is not before the epoch and the empty
  string parses to no date, ``set'' is the same as ``present in the map''.
  \<open>speed_normalized\<close> is the language's \<open>speed <= speedLimit\<close>: on two numbers it is
  \<open>\<le>\<close>, and it is false when either is absent. \<open>feedback_improved\<close> is
  \<open>feedbackRating >= 3\<close>, false when the rating is absent. Any other name holds iff the map
  has that key with the boolean true as value, so an absent name gives false; the
  function has no error result.
\<close>

theorem evaluateCloseCondition_catalogue:
  "(evaluateCloseCondition e ''document_valid'' md \<longleftrightarrow>
      md ''documentValid'' = Some (JBool True)
      \<or> (truthy (js_prop md ''expiryDate'')
         \<and> (\<exists>t. new_Date e (js_prop md ''expiryDate'') = Some t \<and> t_condition e < t)))
   \<and> (0 \<le> t_condition e \<and> Date_parse e [] = None \<longrightarrow>
       (evaluateCloseCondition e ''document_valid'' md \<longleftrightarrow>
          md ''documentValid'' = Some (JBool True)
          \<or> (\<exists>v t. md ''expiryDate'' = Some v \<and> new_Date e v = Some t \<and> t_condition e < t)))
   \<and> (evaluateCloseCondition e ''document_valid'' (md(''expiryDate'' \<mapsto> JDate d)) \<longleftrightarrow>
       md ''documentValid'' = Some (JBool True) \<or> t_condition e < d)
   \<and> (evaluateCloseCondition e ''speed_normalized'' md \<longleftrightarrow>
       js_le e (js_prop md ''speed'') (js_prop md ''speedLimit''))
   \<and> (evaluateCloseCondition e ''speed_normalized''
         (md(''speed'' \<mapsto> JNum x, ''speedLimit'' \<mapsto> JNum y)) \<longleftrightarrow> x \<le> y)
   \<and> \<not> evaluateCloseCondition e ''speed_normalized'' (md(''speed'' := None))
   \<and> \<not> evaluateCloseCondition e ''speed_normalized'' (md(''speedLimit'' := None))
   \<and> (evaluateCloseCondition e ''feedback_improved'' md \<longleftrightarrow>
       js_ge e (js_prop md ''feedbackRating'') (JNum 3))
   \<and> (evaluateCloseCondition e ''feedback_improved'' (md(''feedbackRating'' \<mapsto> JNum z)) \<longleftrightarrow>
       3 \<le> z)
   \<and> \<not> evaluateCloseCondition e ''feedback_improved'' (md(''feedbackRating'' := None))
   \<and> (c \<notin> {''document_valid'', ''speed_normalized'', ''feedback_improved''} \<longrightarrow>
       (evaluateCloseCondition e c md \<longleftrightarrow> md c = Some (JBool True)))"
proof -
  have doc: "evaluateCloseCondition e ''document_valid'' m \<longleftrightarrow>
      m ''documentValid'' = Some (JBool True)
      \<or> (truthy (js_prop m ''expiryDate'')
         \<and> (\<exists>t. new_Date e (js_prop m ''expiryDate'') = Some t \<and> t_condition e < t))" for m
    by (auto simp: evaluateCloseCondition_def js_prop_eq_True split: option.splits)
  have doc_epoch: "evaluateCloseCondition e ''document_valid'' md \<longleftrightarrow>
          md ''documentValid'' = Some (JBool True)
          \<or> (\<exists>v t. md ''expiryDate'' = Some v \<and> new_Date e v = Some t \<and> t_condition e < t)"
    if "0 \<le> t_condition e" "Date_parse e [] = None"
  proof (cases "md ''expiryDate''")
    case None
    then show ?thesis unfolding doc by (simp add: js_prop_def)
  next
    case (Some v)
    then show ?thesis unfolding doc using falsy_date [OF that, of v] by (auto simp: js_prop_def)
  qed
  have doc_date: "evaluateCloseCondition e ''document_valid'' (md(''expiryDate'' \<mapsto> JDate d)) \<longleftrightarrow>
       md ''documentValid'' = Some (JBool True) \<or> t_condition e < d"
    unfolding doc by (simp add: js_prop_def)
  have speed: "evaluateCloseCondition e ''speed_normalized'' m \<longleftrightarrow>
       js_le e (js_prop m ''speed'') (js_prop m ''speedLimit'')" for m
    by (simp add: evaluateCloseCondition_def)
  have speed_num: "evaluateCloseCondition e ''speed_normalized''
         (md(''speed'' \<mapsto> JNum x, ''speedLimit'' \<mapsto> JNum y)) \<longleftrightarrow> x \<le> y"
    unfolding speed by (simp add: js_prop_def js_le_num)
  have speed_absent: "\<not> evaluateCloseCondition e ''speed_normalized'' (md(''speed'' := None))"
    "\<not> evaluateCloseCondition e ''speed_normalized'' (md(''speedLimit'' := None))"
    unfolding speed by (simp_all add: js_prop_def js_le_def js_less_undefined)
  have fb: "evaluateCloseCondition e ''feedback_improved'' m \<longleftrightarrow>
       js_ge e (js_prop m ''feedbackRating'') (JNum 3)" for m
    by (simp add: evaluateCloseCondition_def)
  have fb_num: "evaluateCloseCondition e ''feedback_improved'' (md(''feedbackRating'' \<mapsto> JNum z)) \<longleftrightarrow>
       3 \<le> z"
    unfolding fb by (simp add: js_prop_def js_ge_num)
  have fb_absent: "\<not> evaluateCloseCondition e ''feedback_improved'' (md(''feedbackRating'' := None))"
    unfolding fb by (simp add: js_prop_def js_ge_def js_less_undefined)
  have other: "evaluateCloseCondition e c md \<longleftrightarrow> md c = Some (JBool True)"
    if "c \<notin> {''document_valid'', ''speed_normalized'', ''feedback_improved''}"
    using that by (simp add: evaluateCloseCondition_def js_prop_eq_True)
  show ?thesis
    using doc [of md] doc_epoch doc_date speed [of md] speed_num speed_absent
          fb [of md] fb_num fb_absent other
    by blast
qed

text \<open>
  A name outside the catalogue, present and absent; an expiry date given as a number of
  milliseconds, before and after a clock that reads 5.
\<close>

theorem evaluateCloseCondition_catalogue_witness:
  "evaluateCloseCondition (calm 5) ''maintenance_done'' [''maintenance_done'' \<mapsto> JBool True]
   \<and> \<not> evaluateCloseCondition (calm 5) ''maintenance_done'' Map.empty
   \<and> \<not> evaluateCloseCondition (calm 5) ''document_valid'' [''expiryDate'' \<mapsto> JNum 0]
   \<and> evaluateCloseCondition (calm 5) ''document_valid'' [''expiryDate'' \<mapsto> JNum 6]"
proof -
  note cat = evaluateCloseCondition_catalogue [where e = "calm 5"]
  note other = cat [THEN conjunct2, THEN conjunct2, THEN conjunct2, THEN conjunct2,
                    THEN conjunct2, THEN conjunct2, THEN conjunct2, THEN conjunct2,
                    THEN conjunct2, THEN conjunct2, THEN mp]
  note present = cat [THEN conjunct2, THEN conjunct1, THEN mp]
  have name: "''maintenance_done'' \<notin> {''document_valid'', ''speed_normalized'', ''feedback_improved''}"
    by simp
  have epoch: "0 \<le> t_condition (calm 5) \<and> Date_parse (calm 5) [] = None"
    by (simp add: calm_def)
  have 1: "evaluateCloseCondition (calm 5) ''maintenance_done'' [''maintenance_done'' \<mapsto> JBool True]"
    unfolding other [OF name] by simp
  have 2: "\<not> evaluateCloseCondition (calm 5) ''maintenance_done'' Map.empty"
    unfolding other [OF name] by simp
  have 3: "\<not> evaluateCloseCondition (calm 5) ''document_valid'' [''expiryDate'' \<mapsto> JNum 0]"
    unfolding present [OF epoch] by (simp add: TimeClip_def js_trunc_def calm_def)
  have 4: "evaluateCloseCondition (calm 5) ''document_valid'' [''expiryDate'' \<mapsto> JNum 6]"
    unfolding present [OF epoch] by (simp add: TimeClip_def js_trunc_def calm_def)
  from 1 2 3 4 show ?thesis by simp
qed

section \<open>Evaluation of one alert\<close>

lemma evaluateAlert_matched:
  assumes "evaluateAlert e a s = (Inr ev, s')" and "rule ev = Some r"
  shows "\<exists>reason1 reason3.
           getRule s' (alert.sourceType a) = Some r \<and> enabled r
           \<and> alertStore s' = alertStore s
           \<and> escalation_check e (conditions r) a (alertStore s) = Inr (shouldEscalate ev, reason1)
           \<and> age_check e (conditions r) a
                (close_condition_check e (conditions r) a (False, reason1))
              = (shouldAutoClose ev, reason3)
           \<and> reason ev = Some reason3"
proof -
  have st: "alertStore s' = alertStore s"
    using evaluateAlert_stores [of e a s] assms(1) by simp
  show ?thesis
    using assms unfolding st [symmetric]
    by (auto simp: evaluateAlert_def no_action_def
             split: if_splits option.splits sum.splits prod.splits)
qed

lemma escalation_check_count:
  assumes "escalation_check e c a store = Inr (esc, reason1)"
      and "escalate_if_count c = Some n" "n \<noteq> 0" "window_mins c = Some w" "w \<noteq> 0"
  shows "esc \<longleftrightarrow>
           n \<le> real (length (filter
                  (\<lambda>d. alert.sourceType d = alert.sourceType a
                       \<and> stored_value (driverId_of d) = stored_value (driverId_of a)
                       \<and> js_trunc (fl e (real_of_int (t_window e) - fl e (fl e (w * 60) * 1000)))
                           \<le> timestamp d
                       \<and> (status d = OPEN \<or> status d = ESCALATED))
                  store))"
proof (cases "metadata a")
  case None
  with assms show ?thesis by (simp add: escalation_check_def)
next
  case (Some md)
  have drv: "driverId_of a = js_prop md ''driverId''"
    by (simp add: driverId_of_def Some)
  show ?thesis
    using assms Some
    by (auto simp: escalation_check_def countDocuments_def TimeClip_def Let_def drv
             split: if_splits)
qed

text \<open>
  For a window of a whole number of minutes every intermediate result is a whole number,
  so nothing is rounded and the window start is the clock reading minus the window.
\<close>

lemma whole_minutes_window:
  assumes exact: "exact_on_integers f"
      and k: "0 < k" "k * 60000 \<le> 2 ^ 53" and t: "\<bar>t - k * 60000\<bar> \<le> 2 ^ 53"
  shows "js_trunc (f (real_of_int t - f (f (real_of_int k * 60) * 1000))) = t - k * 60000"
proof -
  have keep: "f (real_of_int z) = real_of_int z" if "\<bar>z\<bar> \<le> 2 ^ 53" for z :: int
    using exact that by (simp add: exact_on_integers_def)
  have b1: "\<bar>k * 60\<bar> \<le> 2 ^ 53" and b2: "\<bar>k * 60000\<bar> \<le> 2 ^ 53"
    using k by simp_all
  have e1: "real_of_int k * 60 = real_of_int (k * 60)"
    and e2: "real_of_int (k * 60) * 1000 = real_of_int (k * 60000)"
    and e3: "real_of_int t - real_of_int (k * 60000) = real_of_int (t - k * 60000)"
    by simp_all
  have val: "f (real_of_int t - f (f (real_of_int k * 60) * 1000)) = real_of_int (t - k * 60000)"
    by (simp only: e1 keep [OF b1] e2 keep [OF b2] e3 keep [OF t])
  have whole: "js_trunc (real_of_int z) = z" for z
    by (simp add: js_trunc_def)
  show ?thesis by (simp only: val whole)
qed

text \<open>
  When the engine is initialised, the rule is found and enabled, the alert has metadata,
  the window start is a valid date and the count query is answered, the evaluation
  returns, with that rule as the matched one.
\<close>

lemma evaluateAlert_returns:
  assumes "initialized s" and "getRule s (alert.sourceType a) = Some r" and "enabled r"
      and "metadata a \<noteq> None" and "\<not> count_fails e"
      and "\<forall>w. window_mins (conditions r) = Some w \<longrightarrow>
             \<bar>fl e (real_of_int (t_window e) - fl e (fl e (w * 60) * 1000))\<bar>
               \<le> 8640000000000000"
  shows "\<exists>ev. evaluateAlert e a s = (Inr ev, s) \<and> rule ev = Some r"
proof -
  have "\<exists>esc r1. escalation_check e (conditions r) a (alertStore s) = Inr (esc, r1)"
    using assms(4-6)
    by (auto simp: escalation_check_def TimeClip_def Let_def split: option.splits)
  then obtain esc r1 where
    "escalation_check e (conditions r) a (alertStore s) = Inr (esc, r1)" by blast
  then show ?thesis
    using assms(1-3) by (simp add: evaluateAlert_def split: prod.splits)
qed

text \<open>
  C2, as amended. Whenever \<open>evaluateAlert\<close> returns for an alert whose matched rule has
  both \<open>escalate_if_count\<close> and \<open>window_mins\<close> set (to a number other than 0, which
  the engine reads as unset), \<open>shouldEscalate\<close> is true iff the threshold is at most the
  number of stored alerts with the same source type, the same driver, a timestamp at or
  after the window start and status OPEN or ESCALATED. The window start is the clock
  reading minus \<open>window_mins * 60 * 1000\<close> as double arithmetic computes it, truncated to
  whole milliseconds; for a window of whole minutes it is exactly the clock reading minus
  the window. The query puts no upper bound on the timestamp.
\<close>

theorem escalation_count_threshold:
  assumes "evaluateAlert e a s = (Inr ev, s')" and "rule ev = Some r"
      and "escalate_if_count (conditions r) = Some n" and "n \<noteq> 0"
      and "window_mins (conditions r) = Some w" and "w \<noteq> 0"
  shows "(shouldEscalate ev \<longleftrightarrow>
           n \<le> real (length (filter
                  (\<lambda>d. alert.sourceType d = alert.sourceType a
                       \<and> stored_value (driverId_of d) = stored_value (driverId_of a)
                       \<and> js_trunc (fl e (real_of_int (t_window e) - fl e (fl e (w * 60) * 1000)))
                           \<le> timestamp d
                       \<and> (status d = OPEN \<or> status d = ESCALATED))
                  (alertStore s))))
       \<and> (exact_on_integers (fl e) \<and> w = real_of_int k \<and> 0 < k \<and> k * 60000 \<le> 2 ^ 53
            \<and> \<bar>t_window e - k * 60000\<bar> \<le> 2 ^ 53 \<longrightarrow>
           (shouldEscalate ev \<longleftrightarrow>
             n \<le> real (length (filter
                    (\<lambda>d. alert.sourceType d = alert.sourceType a
                         \<and> stored_value (driverId_of d) = stored_value (driverId_of a)
                         \<and> t_window e - k * 60000 \<le> timestamp d
                         \<and> (status d = OPEN \<or> status d = ESCALATED))
                    (alertStore s)))))"
proof -
  from evaluateAlert_matched [OF assms(1,2)] obtain reason1 where
    "escalation_check e (conditions r) a (alertStore s) = Inr (shouldEscalate ev, reason1)"
    by blast
  from escalation_check_count [OF this assms(3-6)]
  have general: "shouldEscalate ev \<longleftrightarrow>
           n \<le> real (length (filter
                  (\<lambda>d. alert.sourceType d = alert.sourceType a
                       \<and> stored_value (driverId_of d) = stored_value (driverId_of a)
                       \<and> js_trunc (fl e (real_of_int (t_window e) - fl e (fl e (w * 60) * 1000)))
                           \<le> timestamp d
                       \<and> (status d = OPEN \<or> status d = ESCALATED))
                  (alertStore s)))" .
  have whole: "shouldEscalate ev \<longleftrightarrow>
             n \<le> real (length (filter
                    (\<lambda>d. alert.sourceType d = alert.sourceType a
                         \<and> stored_value (driverId_of d) = stored_value (driverId_of a)
                         \<and> t_window e - k * 60000 \<le> timestamp d
                         \<and> (status d = OPEN \<or> status d = ESCALATED))
                    (alertStore s)))"
    if "exact_on_integers (fl e)" "w = real_of_int k" "0 < k" "k * 60000 \<le> 2 ^ 53"
       "\<bar>t_window e - k * 60000\<bar> \<le> 2 ^ 53"
    using general unfolding that(2) whole_minutes_window [OF that(1,3,4,5)] .
  from general whole show ?thesis by blast
qed

lemma age_check_fires:
  "age_check e c a cur = (cls, reason3) \<Longrightarrow> auto_close_after_mins c = Some m \<Longrightarrow> m \<noteq> 0 \<Longrightarrow>
     (cls \<longleftrightarrow>
        m \<le> fl e (fl e (real_of_int (t_age e) - real_of_int (timestamp a)) / 60000) \<or> fst cur)
     \<and> (m \<le> fl e (fl e (real_of_int (t_age e) - real_of_int (timestamp a)) / 60000) \<longrightarrow>
          reason3 = AgedBeyond m)"
  by (cases cur) (auto simp: age_check_def split: if_splits)

lemma close_condition_check_fires:
  "fst (close_condition_check e c a (False, reason1)) \<longleftrightarrow>
     (\<exists>cond md. auto_close_if c = Some cond \<and> cond \<noteq> [] \<and> metadata a = Some md
                \<and> evaluateCloseCondition e cond md)"
  by (auto simp: close_condition_check_def split: option.splits)

text \<open>An age of a whole number of minutes is computed without rounding.\<close>

lemma whole_minutes_age:
  assumes exact: "exact_on_integers f"
      and age: "t - ts = j * 60000" and j: "\<bar>j\<bar> * 60000 \<le> 2 ^ 53"
  shows "f (f (real_of_int t - real_of_int ts) / 60000) = real_of_int j"
proof -
  have keep: "f (real_of_int z) = real_of_int z" if "\<bar>z\<bar> \<le> 2 ^ 53" for z :: int
    using exact that by (simp add: exact_on_integers_def)
  have b1: "\<bar>j * 60000\<bar> \<le> 2 ^ 53" and b2: "\<bar>j\<bar> \<le> 2 ^ 53"
    using j by (simp_all add: abs_mult)
  have e1: "real_of_int t - real_of_int ts = real_of_int (j * 60000)"
    using age by (simp flip: of_int_diff)
  have e2: "real_of_int (j * 60000) / 60000 = real_of_int j"
    by simp
  show ?thesis
    by (simp only: e1 keep [OF b1] e2 keep [OF b2])
qed

text \<open>
  C7, as amended. Whenever \<open>evaluateAlert\<close> returns for an alert whose matched rule has
  \<open>auto_close_after_mins\<close> set (to a number other than 0), \<open>shouldAutoClose\<close> is true iff
  the age of the alert in minutes, (now - timestamp) / 60000 as double arithmetic
  computes it, is at least the threshold, or the rule's \<open>auto_close_if\<close> condition holds of
  the alert's metadata; when the age reaches the threshold the reason is the one of the
  age check. For a threshold of \<open>k\<close> whole minutes and an alert exactly \<open>j\<close> minutes old,
  the age test is \<open>k \<le> j\<close>: without a close condition an alert of \<open>k + 1\<close> minutes
  auto-closes and one of \<open>k - 1\<close> minutes does not.
\<close>

theorem auto_close_by_age:
  assumes "evaluateAlert e a s = (Inr ev, s')" and "rule ev = Some r"
      and "auto_close_after_mins (conditions r) = Some m" and "m \<noteq> 0"
  shows "(shouldAutoClose ev \<longleftrightarrow>
            m \<le> fl e (fl e (real_of_int (t_age e) - real_of_int (timestamp a)) / 60000)
            \<or> (\<exists>cond md. auto_close_if (conditions r) = Some cond \<and> cond \<noteq> []
                  \<and> metadata a = Some md \<and> evaluateCloseCondition e cond md))
         \<and> (m \<le> fl e (fl e (real_of_int (t_age e) - real_of_int (timestamp a)) / 60000) \<longrightarrow>
              reason ev = Some (AgedBeyond m))
         \<and> (exact_on_integers (fl e) \<and> m = real_of_int k
              \<and> t_age e - timestamp a = j * 60000 \<and> \<bar>j\<bar> * 60000 \<le> 2 ^ 53 \<longrightarrow>
             (shouldAutoClose ev \<longleftrightarrow>
                k \<le> j
                \<or> (\<exists>cond md. auto_close_if (conditions r) = Some cond \<and> cond \<noteq> []
                      \<and> metadata a = Some md \<and> evaluateCloseCondition e cond md)))"
proof -
  from evaluateAlert_matched [OF assms(1,2)] obtain reason1 reason3 where
    age: "age_check e (conditions r) a
            (close_condition_check e (conditions r) a (False, reason1))
          = (shouldAutoClose ev, reason3)"
    and r3: "reason ev = Some reason3"
    by blast
  from age_check_fires [OF age assms(3,4)] r3
  have general: "(shouldAutoClose ev \<longleftrightarrow>
            m \<le> fl e (fl e (real_of_int (t_age e) - real_of_int (timestamp a)) / 60000)
            \<or> (\<exists>cond md. auto_close_if (conditions r) = Some cond \<and> cond \<noteq> []
                  \<and> metadata a = Some md \<and> evaluateCloseCondition e cond md))"
    and why: "m \<le> fl e (fl e (real_of_int (t_age e) - real_of_int (timestamp a)) / 60000) \<longrightarrow>
              reason ev = Some (AgedBeyond m)"
    by (simp_all add: close_condition_check_fires)
  have whole: "shouldAutoClose ev \<longleftrightarrow>
                k \<le> j
                \<or> (\<exists>cond md. auto_close_if (conditions r) = Some cond \<and> cond \<noteq> []
                      \<and> metadata a = Some md \<and> evaluateCloseCondition e cond md)"
    if "exact_on_integers (fl e)" "m = real_of_int k"
       "t_age e - timestamp a = j * 60000" "\<bar>j\<bar> * 60000 \<le> 2 ^ 53"
    using general unfolding whole_minutes_age [OF that(1,3,4)] that(2) by simp
  from general why whole show ?thesis by blast
qed

lemmas sample_defs = overspeed_alert_def renewed_alert_def new_alert_def engine_with_def calm_def
  seed_overspeed_rule_def seed_compliance_rule_def low_overspeed_rule_def build_index_def

lemmas eval_defs = evaluateAlert_def getRule_def escalation_check_def close_condition_check_def
  age_check_def countDocuments_def TimeClip_def js_trunc_def stored_value_def driverId_of_def
  js_prop_def evaluateCloseCondition_def no_action_def Let_def

lemma calm_exact: "exact_on_integers (fl (calm now))"
  by (simp add: exact_on_integers_def calm_def)

lemma three_in_window:
  "evaluateAlert (calm 6000000) (overspeed_alert ''A3'' 6000000)
     (engine_with [seed_overspeed_rule]
        [overspeed_alert ''A1'' 4200000, overspeed_alert ''A2'' 5400000,
         overspeed_alert ''A3'' 6000000])
   = (Inr \<lparr>shouldEscalate = True, shouldAutoClose = False,
            reason = Some (EscalationSummary 3 ''overspeed'' 60),
            rule = Some seed_overspeed_rule\<rparr>,
      engine_with [seed_overspeed_rule]
        [overspeed_alert ''A1'' 4200000, overspeed_alert ''A2'' 5400000,
         overspeed_alert ''A3'' 6000000])"
  by (simp add: eval_defs sample_defs)

lemma two_in_window:
  "evaluateAlert (calm 6000000) (overspeed_alert ''A3'' 6000000)
     (engine_with [seed_overspeed_rule]
        [overspeed_alert ''A1'' 2399999, overspeed_alert ''A2'' 2400000,
         overspeed_alert ''A3'' 6000000])
   = (Inr \<lparr>shouldEscalate = False, shouldAutoClose = False,
            reason = Some (Plain []), rule = Some seed_overspeed_rule\<rparr>,
      engine_with [seed_overspeed_rule]
        [overspeed_alert ''A1'' 2399999, overspeed_alert ''A2'' 2400000,
         overspeed_alert ''A3'' 6000000])"
  by (simp add: eval_defs sample_defs)

lemma seed_overspeed_conditions:
  "escalate_if_count (conditions seed_overspeed_rule) = Some 3"
  "window_mins (conditions seed_overspeed_rule) = Some 60"
  "auto_close_if (conditions seed_overspeed_rule) = None"
  "auto_close_after_mins (conditions seed_overspeed_rule) = Some 1440"
  by (simp_all add: seed_overspeed_rule_def)

text \<open>
  The seed's overspeed rule (3 alerts within 60 minutes) at a clock reading of 6000000:
  three alerts at or after the window start 2400000 escalate, two do not (the third
  is one millisecond too old).
\<close>

theorem escalation_count_threshold_witness:
  "(3::real) \<le> real (length (filter
       (\<lambda>d. alert.sourceType d = alert.sourceType (overspeed_alert ''A3'' 6000000)
            \<and> stored_value (driverId_of d) = stored_value (driverId_of (overspeed_alert ''A3'' 6000000))
            \<and> t_window (calm 6000000) - 60 * 60000 \<le> timestamp d
            \<and> (status d = OPEN \<or> status d = ESCALATED))
       [overspeed_alert ''A1'' 4200000, overspeed_alert ''A2'' 5400000,
        overspeed_alert ''A3'' 6000000]))
   \<and> \<not> (3::real) \<le> real (length (filter
       (\<lambda>d. alert.sourceType d = alert.sourceType (overspeed_alert ''A3'' 6000000)
            \<and> stored_value (driverId_of d) = stored_value (driverId_of (overspeed_alert ''A3'' 6000000))
            \<and> t_window (calm 6000000) - 60 * 60000 \<le> timestamp d
            \<and> (status d = OPEN \<or> status d = ESCALATED))
       [overspeed_alert ''A1'' 2399999, overspeed_alert ''A2'' 2400000,
        overspeed_alert ''A3'' 6000000]))"
proof -
  have nz: "(3::real) \<noteq> 0" "(60::real) \<noteq> 0" by simp_all
  have store: "alertStore (engine_with rs xs) = xs" for rs xs
    by (simp add: engine_with_def)
  have whole: "exact_on_integers (fl (calm 6000000)) \<and> (60::real) = real_of_int 60
       \<and> (0::int) < 60 \<and> (60::int) * 60000 \<le> 2 ^ 53
       \<and> \<bar>t_window (calm 6000000) - 60 * 60000\<bar> \<le> 2 ^ 53"
    by (simp add: calm_exact) (simp add: calm_def)
  note three = escalation_count_threshold
         [OF three_in_window _ seed_overspeed_conditions(1) nz(1)
             seed_overspeed_conditions(2) nz(2), where k = 60, THEN conjunct2, THEN mp, OF _ whole]
  note two = escalation_count_threshold
         [OF two_in_window _ seed_overspeed_conditions(1) nz(1)
             seed_overspeed_conditions(2) nz(2), where k = 60, THEN conjunct2, THEN mp, OF _ whole]
  from three two show ?thesis by (simp add: store)
qed

text \<open>
  C2, counterexample to the claim as stated.
  Two of the three stored alerts carry a timestamp after the reading of the clock (they
  were stored between that reading and the query). The query has no upper bound and
  counts all three; the window from now minus 60 minutes to now holds one.
\<close>

theorem escalation_window_counterexample:
  "fst (evaluateAlert (calm 6000000) (overspeed_alert ''A1'' 5999000)
          (engine_with [seed_overspeed_rule]
             [overspeed_alert ''A1'' 5999000, overspeed_alert ''A2'' 6000001,
              overspeed_alert ''A3'' 6000002]))
     = Inr \<lparr>shouldEscalate = True, shouldAutoClose = False,
            reason = Some (EscalationSummary 3 ''overspeed'' 60),
            rule = Some seed_overspeed_rule\<rparr>
   \<and> escalate_if_count (conditions seed_overspeed_rule) = Some 3
   \<and> window_mins (conditions seed_overspeed_rule) = Some 60
   \<and> spec_window_count (t_window (calm 6000000)) 60 (overspeed_alert ''A1'' 5999000)
         [overspeed_alert ''A1'' 5999000, overspeed_alert ''A2'' 6000001,
          overspeed_alert ''A3'' 6000002] = 1"
  by (simp add: eval_defs sample_defs spec_window_count_def)

lemma aged_past_threshold:
  "evaluateAlert (calm 100000000) (overspeed_alert ''A1'' 13540000)
     (engine_with [seed_overspeed_rule] [overspeed_alert ''A1'' 13540000])
   = (Inr \<lparr>shouldEscalate = False, shouldAutoClose = True,
            reason = Some (AgedBeyond 1440), rule = Some seed_overspeed_rule\<rparr>,
      engine_with [seed_overspeed_rule] [overspeed_alert ''A1'' 13540000])"
  by (simp add: eval_defs sample_defs)

lemma aged_below_threshold:
  "evaluateAlert (calm 100000000) (overspeed_alert ''A1'' 13660000)
     (engine_with [seed_overspeed_rule] [overspeed_alert ''A1'' 13660000])
   = (Inr \<lparr>shouldEscalate = False, shouldAutoClose = False,
            reason = Some (Plain []), rule = Some seed_overspeed_rule\<rparr>,
      engine_with [seed_overspeed_rule] [overspeed_alert ''A1'' 13660000])"
  by (simp add: eval_defs sample_defs)

text \<open>
  The seed's overspeed rule (auto-close after 1440 minutes, no close condition): an alert
  1441 minutes old is marked for auto-closure, one of 1439 minutes is not.
\<close>

theorem auto_close_by_age_witness:
  "t_age (calm 100000000) - timestamp (overspeed_alert ''A1'' 13540000) = 1441 * 60000
   \<and> t_age (calm 100000000) - timestamp (overspeed_alert ''A1'' 13660000) = 1439 * 60000
   \<and> shouldAutoClose \<lparr>shouldEscalate = False, shouldAutoClose = True,
                       reason = Some (AgedBeyond 1440), rule = Some seed_overspeed_rule\<rparr>
       = ((1440::int) \<le> 1441)
   \<and> shouldAutoClose \<lparr>shouldEscalate = False, shouldAutoClose = False,
                       reason = Some (Plain []), rule = Some seed_overspeed_rule\<rparr>
       = ((1440::int) \<le> 1439)"
proof -
  have nz: "(1440::real) \<noteq> 0" by simp
  have past: "t_age (calm 100000000) - timestamp (overspeed_alert ''A1'' 13540000) = 1441 * 60000"
    and below: "t_age (calm 100000000) - timestamp (overspeed_alert ''A1'' 13660000) = 1439 * 60000"
    by (simp_all add: sample_defs)
  have h1: "exact_on_integers (fl (calm 100000000)) \<and> (1440::real) = real_of_int 1440
       \<and> t_age (calm 100000000) - timestamp (overspeed_alert ''A1'' 13540000) = 1441 * 60000
       \<and> \<bar>1441::int\<bar> * 60000 \<le> 2 ^ 53"
    using past by (simp add: calm_exact)
  have h2: "exact_on_integers (fl (calm 100000000)) \<and> (1440::real) = real_of_int 1440
       \<and> t_age (calm 100000000) - timestamp (overspeed_alert ''A1'' 13660000) = 1439 * 60000
       \<and> \<bar>1439::int\<bar> * 60000 \<le> 2 ^ 53"
    using below by (simp add: calm_exact)
  note a = auto_close_by_age [OF aged_past_threshold _ seed_overspeed_conditions(4) nz,
             THEN conjunct2, THEN conjunct2, THEN mp, OF _ h1]
  note b = auto_close_by_age [OF aged_below_threshold _ seed_overspeed_conditions(4) nz,
             THEN conjunct2, THEN conjunct2, THEN mp, OF _ h2]
  from a b past below show ?thesis by (simp add: seed_overspeed_conditions)
qed

text \<open>
  C7, counterexample to the claim as stated.
  The seed's compliance rule has both \<open>auto_close_if\<close> and \<open>auto_close_after_mins\<close>. An
  alert 10079 minutes old whose document has been renewed is marked for auto-closure
  although its age is below the threshold of 10080 minutes.
\<close>

theorem auto_close_age_counterexample:
  "fst (evaluateAlert (calm 700000000) (renewed_alert 95260000 786400000)
          (engine_with [seed_compliance_rule] [renewed_alert 95260000 786400000]))
     = Inr \<lparr>shouldEscalate = False, shouldAutoClose = True,
            reason = Some (ConditionMet ''document_valid''),
            rule = Some seed_compliance_rule\<rparr>
   \<and> auto_close_after_mins (conditions seed_compliance_rule) = Some 10080
   \<and> t_age (calm 700000000) - timestamp (renewed_alert 95260000 786400000) = 10079 * 60000"
  by (simp add: eval_defs sample_defs)

section \<open>Processing one alert\<close>

lemma escalate_branch_fired:
  assumes "shouldEscalate ev" "status a = OPEN"
  shows "escalate_branch e ev a s =
     (if save_escalated_fails e then (Inl StoreError, escalate (t_escalate e) (reason ev) a, s)
      else if log_escalated_fails e then
        (Inl StoreError, escalate (t_escalate e) (reason ev) a,
         s\<lparr>alertStore := map (\<lambda>d. if alert.alertId d = alert.alertId a
                                   then escalate (t_escalate e) (reason ev) a else d)
                              (alertStore s)\<rparr>)
      else
        (Inr True, escalate (t_escalate e) (reason ev) a,
         s\<lparr>alertStore := map (\<lambda>d. if alert.alertId d = alert.alertId a
                                   then escalate (t_escalate e) (reason ev) a else d)
                              (alertStore s),
           historyLog := historyLog s @
              [engine_entry (escalate (t_escalate e) (reason ev) a) OPEN ESCALATED ev]\<rparr>))"
  using assms
  by (simp add: escalate_branch_def save_def logTransition_def Let_def escalate_def)

lemma escalate_branch_idle:
  "\<not> (shouldEscalate ev \<and> status a = OPEN) \<Longrightarrow> escalate_branch e ev a s = (Inr False, a, s)"
  by (auto simp: escalate_branch_def)

lemma autoClose_branch_fired:
  assumes "shouldAutoClose ev" "status a = OPEN \<or> status a = ESCALATED"
  shows "autoClose_branch e ev m a s =
     (if save_autoClosed_fails e then (Inl StoreError, autoClose (t_autoClose e) (reason ev) a, s)
      else if log_autoClosed_fails e then
        (Inl StoreError, autoClose (t_autoClose e) (reason ev) a,
         s\<lparr>alertStore := map (\<lambda>d. if alert.alertId d = alert.alertId a
                                   then autoClose (t_autoClose e) (reason ev) a else d)
                              (alertStore s)\<rparr>)
      else
        (Inr True, autoClose (t_autoClose e) (reason ev) a,
         s\<lparr>alertStore := map (\<lambda>d. if alert.alertId d = alert.alertId a
                                   then autoClose (t_autoClose e) (reason ev) a else d)
                              (alertStore s),
           historyLog := historyLog s @
              [engine_entry (autoClose (t_autoClose e) (reason ev) a) (status a) AUTO_CLOSED ev]\<rparr>))"
  using assms
  by (auto simp: autoClose_branch_def save_def logTransition_def Let_def autoClose_def)

lemma autoClose_branch_idle:
  "\<not> (shouldAutoClose ev \<and> (status a = OPEN \<or> status a = ESCALATED)) \<Longrightarrow>
     autoClose_branch e ev m a s = (Inr m, a, s)"
  by (auto simp: autoClose_branch_def)

lemma escalate_fields:
  "status a = OPEN \<Longrightarrow> status (escalate t r a) = ESCALATED"
  "status a = OPEN \<Longrightarrow> severity (escalate t r a) = CRITICAL"
  "status a = OPEN \<Longrightarrow> escalatedAt (escalate t r a) = Some t"
  "alert.alertId (escalate t r a) = alert.alertId a"
  by (simp_all add: escalate_def)

lemma autoClose_fields:
  "status a = OPEN \<or> status a = ESCALATED \<Longrightarrow> status (autoClose t r a) = AUTO_CLOSED"
  "status a = OPEN \<or> status a = ESCALATED \<Longrightarrow> autoClosedAt (autoClose t r a) = Some t"
  "severity (autoClose t r a) = severity a"
  "escalatedAt (autoClose t r a) = escalatedAt a"
  "notes (autoClose t r a) = notes a"
  "alert.alertId (autoClose t r a) = alert.alertId a"
  by (auto simp: autoClose_def)

lemma auto_close_reason:
  assumes "evaluateAlert e a s = (Inr ev, s')" and "shouldAutoClose ev"
  shows "(\<exists>c. reason ev = Some (ConditionMet c)) \<or> (\<exists>m. reason ev = Some (AgedBeyond m))"
  using assms
  by (auto simp: evaluateAlert_def no_action_def age_check_def close_condition_check_def
           split: if_splits option.splits sum.splits prod.splits)

text \<open>
  C6. The escalation check and the two auto-close checks are independent: an evaluation
  can carry both flags. Whenever it does, the reason it carries is the one of an
  auto-close check, not the escalation summary, and \<open>processAlert\<close> on an OPEN alert whose
  store operations succeed first escalates and then auto-closes in the same call: the
  document ends AUTO_CLOSED with severity CRITICAL and both timestamps set, and the
  history log grows by the entry OPEN to ESCALATED followed by the entry ESCALATED to
  AUTO_CLOSED.
\<close>

theorem escalate_then_auto_close:
  assumes ev: "evaluateAlert e a s = (Inr ev, s1)"
      and both: "shouldEscalate ev" "shouldAutoClose ev"
      and opn: "status a = OPEN"
      and ok: "\<not> save_escalated_fails e" "\<not> log_escalated_fails e"
              "\<not> save_autoClosed_fails e" "\<not> log_autoClosed_fails e"
  shows "\<exists>a1 a2 s2.
           processAlert e a s = (Success True ev, a2, s2)
           \<and> a1 = escalate (t_escalate e) (reason ev) a
           \<and> a2 = autoClose (t_autoClose e) (reason ev) a1
           \<and> status a1 = ESCALATED \<and> status a2 = AUTO_CLOSED
           \<and> severity a2 = CRITICAL
           \<and> escalatedAt a2 = Some (t_escalate e) \<and> autoClosedAt a2 = Some (t_autoClose e)
           \<and> historyLog s2 = historyLog s @
                [engine_entry a1 OPEN ESCALATED ev, engine_entry a2 ESCALATED AUTO_CLOSED ev]
           \<and> ((\<exists>c. reason ev = Some (ConditionMet c)) \<or> (\<exists>m. reason ev = Some (AgedBeyond m)))"
proof -
  let ?a1 = "escalate (t_escalate e) (reason ev) a"
  let ?a2 = "autoClose (t_autoClose e) (reason ev) ?a1"
  have h1: "historyLog s1 = historyLog s"
    using evaluateAlert_stores [of e a s] ev by simp
  have st1: "status ?a1 = ESCALATED" using opn by (simp add: escalate_fields)
  have esc: "escalate_branch e ev a s1 =
     (Inr True, ?a1,
      s1\<lparr>alertStore := map (\<lambda>d. if alert.alertId d = alert.alertId a then ?a1 else d)
                            (alertStore s1),
         historyLog := historyLog s1 @ [engine_entry ?a1 OPEN ESCALATED ev]\<rparr>)"
    using escalate_branch_fired [OF both(1) opn, of e s1] ok by simp
  have cls: "autoClose_branch e ev True ?a1 s' =
     (Inr True, ?a2,
      s'\<lparr>alertStore := map (\<lambda>d. if alert.alertId d = alert.alertId ?a1 then ?a2 else d)
                            (alertStore s'),
         historyLog := historyLog s' @ [engine_entry ?a2 ESCALATED AUTO_CLOSED ev]\<rparr>)" for s'
    using autoClose_branch_fired [OF both(2), of ?a1 e True s'] ok st1 by simp
  have run: "processAlert e a s =
     (Success True ev, ?a2,
      s1\<lparr>alertStore := map (\<lambda>d. if alert.alertId d = alert.alertId ?a1 then ?a2 else d)
                            (map (\<lambda>d. if alert.alertId d = alert.alertId a then ?a1 else d)
                                 (alertStore s1)),
         historyLog := historyLog s1 @ [engine_entry ?a1 OPEN ESCALATED ev,
                                        engine_entry ?a2 ESCALATED AUTO_CLOSED ev]\<rparr>)"
    by (simp add: processAlert_def ev esc cls)
  have fields: "status ?a2 = AUTO_CLOSED" "severity ?a2 = CRITICAL"
    "escalatedAt ?a2 = Some (t_escalate e)" "autoClosedAt ?a2 = Some (t_autoClose e)"
    using opn st1 by (simp_all add: autoClose_fields escalate_fields)
  from run fields st1 h1 auto_close_reason [OF ev both(2)] show ?thesis by simp
qed

lemma slow_alert_evaluation:
  "evaluateAlert (calm 6000000) (slow_alert 6000000)
     (engine_with [low_overspeed_rule] [slow_alert 6000000])
   = (Inr \<lparr>shouldEscalate = True, shouldAutoClose = True,
            reason = Some (ConditionMet ''speed_normalized''),
            rule = Some low_overspeed_rule\<rparr>,
      engine_with [low_overspeed_rule] [slow_alert 6000000])"
  by (simp add: eval_defs sample_defs slow_alert_def js_le_def js_less_def)

text \<open>
  An overspeed alert within the speed limit, under a rule that escalates on the first
  occurrence and closes when the speed is normal: both flags are set, the reason is the
  close condition, and the call logs the two transitions.
\<close>

theorem escalate_then_auto_close_witness:
  "fst (evaluateAlert (calm 6000000) (slow_alert 6000000)
          (engine_with [low_overspeed_rule] [slow_alert 6000000]))
     = Inr \<lparr>shouldEscalate = True, shouldAutoClose = True,
            reason = Some (ConditionMet ''speed_normalized''),
            rule = Some low_overspeed_rule\<rparr>
   \<and> status (fst (snd (processAlert (calm 6000000) (slow_alert 6000000)
                (engine_with [low_overspeed_rule] [slow_alert 6000000])))) = AUTO_CLOSED
   \<and> map (\<lambda>h. (fromStatus h, toStatus h))
        (historyLog (snd (snd (processAlert (calm 6000000) (slow_alert 6000000)
                (engine_with [low_overspeed_rule] [slow_alert 6000000])))))
     = [(Some OPEN, ESCALATED), (Some ESCALATED, AUTO_CLOSED)]"
proof -
  have opn: "status (slow_alert 6000000) = OPEN"
    by (simp add: slow_alert_def new_alert_def)
  have ok: "\<not> save_escalated_fails (calm 6000000)" "\<not> log_escalated_fails (calm 6000000)"
           "\<not> save_autoClosed_fails (calm 6000000)" "\<not> log_autoClosed_fails (calm 6000000)"
    by (simp_all add: calm_def)
  have hist: "historyLog (engine_with rs xs) = []" for rs xs
    by (simp add: engine_with_def)
  from escalate_then_auto_close [OF slow_alert_evaluation _ _ opn ok]
  show ?thesis
    by (auto simp: slow_alert_evaluation hist engine_entry_def)
qed

lemma autoClose_branch_effect:
  assumes "autoClose_branch e ev m a s = (x, a', s')"
  shows "severity a' = severity a \<and> escalatedAt a' = escalatedAt a \<and> notes a' = notes a
       \<and> (status a' = status a \<or> status a' = AUTO_CLOSED)
       \<and> (\<exists>es. historyLog s' = historyLog s @ es \<and> (\<forall>h \<in> set es. toStatus h = AUTO_CLOSED))
       \<and> (status a' \<noteq> AUTO_CLOSED \<longrightarrow> a' = a \<and> s' = s \<and> x = Inr m)
       \<and> (\<not> shouldAutoClose ev \<longrightarrow> a' = a \<and> s' = s \<and> x = Inr m)"
proof (cases "shouldAutoClose ev \<and> (status a = OPEN \<or> status a = ESCALATED)")
  case True
  then have st: "status (autoClose (t_autoClose e) (reason ev) a) = AUTO_CLOSED"
    by (simp add: autoClose_fields)
  from True assms st show ?thesis
    unfolding autoClose_branch_fired [of ev a e m s, OF conjunct1 [OF True] conjunct2 [OF True]]
    by (auto simp: autoClose_fields engine_entry_def split: if_splits)
next
  case False
  from assms show ?thesis
    unfolding autoClose_branch_idle [OF False] using False by auto
qed

lemma escalate_branch_effect:
  assumes "escalate_branch e ev a s = (Inr m, a', s')"
  shows "(m \<longrightarrow> status a = OPEN \<and> status a' = ESCALATED
              \<and> historyLog s' = historyLog s @ [engine_entry a' OPEN ESCALATED ev])
       \<and> (\<not> m \<longrightarrow> a' = a \<and> s' = s)"
proof (cases "shouldEscalate ev \<and> status a = OPEN")
  case True
  from assms show ?thesis
    unfolding escalate_branch_fired [of ev a e s, OF conjunct1 [OF True] conjunct2 [OF True]]
    using True by (auto simp: escalate_fields split: if_splits)
next
  case False
  from assms show ?thesis
    unfolding escalate_branch_idle [OF False] by auto
qed

lemma processAlert_success:
  assumes "processAlert e a s = (Success m ev, a', s')"
  shows "\<exists>s0 m1 a1 s1. evaluateAlert e a s = (Inr ev, s0)
           \<and> escalate_branch e ev a s0 = (Inr m1, a1, s1)
           \<and> autoClose_branch e ev m1 a1 s1 = (Inr m, a', s')"
  using assms
  by (auto simp: processAlert_def split: prod.splits sum.splits)

lemma processAlert_not_open:
  assumes "status a \<noteq> OPEN" and "processAlert e a s = (r, a', s')"
  shows "severity a' = severity a \<and> escalatedAt a' = escalatedAt a \<and> notes a' = notes a
       \<and> (status a' = status a \<or> status a' = AUTO_CLOSED)
       \<and> (\<exists>es. historyLog s' = historyLog s @ es \<and> (\<forall>h \<in> set es. toStatus h = AUTO_CLOSED))
       \<and> (status a' \<noteq> AUTO_CLOSED \<longrightarrow>
            a' = a \<and> historyLog s' = historyLog s \<and> alertStore s' = alertStore s)
       \<and> (\<forall>m ev. r = Success m ev \<and> \<not> shouldAutoClose ev \<longrightarrow> a' = a \<and> \<not> m)"
proof (cases "evaluateAlert e a s")
  case (Pair x s0)
  have st: "historyLog s0 = historyLog s" "alertStore s0 = alertStore s"
    using evaluateAlert_stores [of e a s] Pair by simp_all
  show ?thesis
  proof (cases x)
    case (Inl err)
    with Pair assms(2) have "r = Failure err" "a' = a" "s' = s0"
      by (simp_all add: processAlert_def)
    with st show ?thesis by simp
  next
    case (Inr ev)
    obtain y a2 s2 where cls: "autoClose_branch e ev False a s0 = (y, a2, s2)"
      by (cases "autoClose_branch e ev False a s0") auto
    have run: "processAlert e a s =
        (case y of Inl err \<Rightarrow> (Failure err, a2, s2) | Inr m' \<Rightarrow> (Success m' ev, a2, s2))"
      by (simp add: processAlert_def Pair Inr escalate_branch_not_open [OF assms(1)] cls
               split: sum.splits)
    note eff = autoClose_branch_effect [OF cls]
    have same: "a' = a2" "s' = s2"
      using run assms(2) by (cases y; simp)+
    have res: "r = Success m ev' \<Longrightarrow> ev' = ev \<and> y = Inr m" for m ev'
      using run assms(2) by (cases y) auto
    have last: "a' = a \<and> \<not> m" if "r = Success m ev'" "\<not> shouldAutoClose ev'" for m ev'
      using res [OF that(1)] that(2) eff same by simp
    have fields: "severity a' = severity a" "escalatedAt a' = escalatedAt a" "notes a' = notes a"
      "status a' = status a \<or> status a' = AUTO_CLOSED"
      using eff same by simp_all
    have log: "\<exists>es. historyLog s' = historyLog s @ es \<and> (\<forall>h \<in> set es. toStatus h = AUTO_CLOSED)"
      using eff same st by simp
    have quiet: "status a' \<noteq> AUTO_CLOSED \<longrightarrow>
            a' = a \<and> historyLog s' = historyLog s \<and> alertStore s' = alertStore s"
      using eff same st by simp
    from fields log quiet last show ?thesis by blast
  qed
qed

lemma escalate_branch_failed:
  assumes "escalate_branch e ev a s = (Inl err, a', s')"
  shows "err = StoreError \<and> historyLog s' = historyLog s"
proof (cases "shouldEscalate ev \<and> status a = OPEN")
  case True
  from assms show ?thesis
    unfolding escalate_branch_fired [of ev a e s, OF conjunct1 [OF True] conjunct2 [OF True]]
    by (auto split: if_splits)
next
  case False
  from assms show ?thesis
    unfolding escalate_branch_idle [OF False] by simp
qed

text \<open>
  What a call that takes an OPEN alert to ESCALATED has written to the log: the entry of
  the escalation when it returns success, nothing when it returns failure (its save or
  its history write was rejected).
\<close>

lemma first_call_log:
  assumes opn: "status a = OPEN"
      and run: "processAlert e a s = (r, a1, s1)"
      and moved: "status a1 = ESCALATED"
  shows "(succeeded r \<longrightarrow> (\<exists>ev. historyLog s1 = historyLog s @ [engine_entry a1 OPEN ESCALATED ev]))
       \<and> (\<not> succeeded r \<longrightarrow> r = Failure StoreError \<and> historyLog s1 = historyLog s)"
proof (cases "evaluateAlert e a s")
  case (Pair x s0)
  have h0: "historyLog s0 = historyLog s"
    using evaluateAlert_stores [of e a s] Pair by simp
  show ?thesis
  proof (cases x)
    case (Inl err)
    with Pair run have "a1 = a" by (simp add: processAlert_def)
    with opn moved show ?thesis by simp
  next
    case (Inr ev)
    obtain y a' s' where esc: "escalate_branch e ev a s0 = (y, a', s')"
      by (cases "escalate_branch e ev a s0") auto
    show ?thesis
    proof (cases y)
      case (Inl err)
      from run have res: "r = Failure err" "a1 = a'" "s1 = s'"
        by (simp_all add: processAlert_def Pair Inr esc Inl)
      from escalate_branch_failed [OF esc [unfolded Inl]] res h0
      show ?thesis by simp
    next
      case m: (Inr m)
      obtain z a'' s'' where cls: "autoClose_branch e ev m a' s' = (z, a'', s'')"
        by (cases "autoClose_branch e ev m a' s'") auto
      have fin: "a1 = a''" "s1 = s''"
        using run by (cases z; simp add: processAlert_def Pair Inr esc m cls)+
      have quiet: "status a'' \<noteq> AUTO_CLOSED \<longrightarrow> a'' = a' \<and> s'' = s' \<and> z = Inr m"
        using autoClose_branch_effect [OF cls] by blast
      with moved fin have same: "a1 = a'" "s1 = s'" "z = Inr m" by simp_all
      have res: "r = Success m ev"
        using run by (simp add: processAlert_def Pair Inr esc m cls same)
      note eff = escalate_branch_effect [OF esc [unfolded m]]
      have m
      proof (rule ccontr)
        assume "\<not> m"
        with eff have "a' = a" by blast
        with same opn moved show False by simp
      qed
      with eff have "historyLog s' = historyLog s0 @ [engine_entry a' OPEN ESCALATED ev]"
        by blast
      with same h0 res show ?thesis by auto
    qed
  qed
qed

text \<open>
  C4, as amended. Let a first call of \<open>processAlert\<close> take an OPEN alert to ESCALATED, and
  let a second call run on that document in the state the first call left. Across both
  calls the history log grows by entries of which at most one goes from OPEN to
  ESCALATED: exactly one when the first call returned success, none when it returned
  failure because its save or its history write was rejected. In either case the second
  call adds no such entry and leaves severity, \<open>escalatedAt\<close> and \<open>notes\<close> as they are;
  the status stays ESCALATED unless the second call auto-closes, and when it does not
  (in particular when its evaluation does not ask for auto-closure) the document and the
  stores are unchanged.
\<close>

theorem second_call_does_not_escalate:
  assumes opn: "status a = OPEN"
      and first: "processAlert e1 a s = (r1, a1, s1)"
      and moved: "status a1 = ESCALATED"
      and second: "processAlert e2 a1 s1 = (r2, a2, s2)"
  shows "(\<exists>es. historyLog s2 = historyLog s @ es
            \<and> length (filter open_to_escalated es) = (if succeeded r1 then 1 else 0))
       \<and> (\<not> succeeded r1 \<longrightarrow> r1 = Failure StoreError)
       \<and> (\<exists>es. historyLog s2 = historyLog s1 @ es \<and> filter open_to_escalated es = [])
       \<and> severity a2 = severity a1 \<and> escalatedAt a2 = escalatedAt a1 \<and> notes a2 = notes a1
       \<and> (status a2 = ESCALATED \<or> status a2 = AUTO_CLOSED)
       \<and> (status a2 \<noteq> AUTO_CLOSED \<longrightarrow>
            a2 = a1 \<and> historyLog s2 = historyLog s1 \<and> alertStore s2 = alertStore s1)
       \<and> (\<forall>m2 ev2. r2 = Success m2 ev2 \<and> \<not> shouldAutoClose ev2 \<longrightarrow> a2 = a1 \<and> \<not> m2)"
proof -
  note logged = first_call_log [OF opn first moved]
  have ne: "status a1 \<noteq> OPEN" using moved by simp
  note np = processAlert_not_open [OF ne second]
  from np obtain es where
    log2: "historyLog s2 = historyLog s1 @ es" and closed: "\<forall>h \<in> set es. toStatus h = AUTO_CLOSED"
    by blast
  have none: "filter open_to_escalated es = []"
    using closed by (auto simp: filter_empty_conv open_to_escalated_def)
  have later: "\<exists>es. historyLog s2 = historyLog s1 @ es \<and> filter open_to_escalated es = []"
    using log2 none by blast
  have count: "\<exists>es. historyLog s2 = historyLog s @ es
            \<and> length (filter open_to_escalated es) = (if succeeded r1 then 1 else 0)"
  proof (cases "succeeded r1")
    case True
    with logged obtain ev where
      log1: "historyLog s1 = historyLog s @ [engine_entry a1 OPEN ESCALATED ev]" by blast
    have one: "open_to_escalated (engine_entry a1 OPEN ESCALATED ev)"
      by (simp add: open_to_escalated_def engine_entry_def)
    have "historyLog s2 = historyLog s @ (engine_entry a1 OPEN ESCALATED ev # es)"
      using log1 log2 by simp
    moreover have "length (filter open_to_escalated (engine_entry a1 OPEN ESCALATED ev # es)) = 1"
      using none one by simp
    ultimately show ?thesis using True by auto
  next
    case False
    with logged have "historyLog s1 = historyLog s" by blast
    with log2 have "historyLog s2 = historyLog s @ es" by simp
    moreover have "length (filter open_to_escalated es) = 0" using none by simp
    ultimately show ?thesis using False by auto
  qed
  have failed: "\<not> succeeded r1 \<longrightarrow> r1 = Failure StoreError"
    using logged by blast
  have fields: "severity a2 = severity a1" "escalatedAt a2 = escalatedAt a1" "notes a2 = notes a1"
    using np by blast+
  have st2: "status a2 = ESCALATED \<or> status a2 = AUTO_CLOSED"
    using np moved by auto
  have quiet2: "status a2 \<noteq> AUTO_CLOSED \<longrightarrow>
            a2 = a1 \<and> historyLog s2 = historyLog s1 \<and> alertStore s2 = alertStore s1"
    using np by blast
  have last: "\<forall>m2 ev2. r2 = Success m2 ev2 \<and> \<not> shouldAutoClose ev2 \<longrightarrow> a2 = a1 \<and> \<not> m2"
    using np by blast
  from count failed later fields st2 quiet2 last show ?thesis by blast
qed

lemmas run_defs = processAlert_def escalate_branch_def autoClose_branch_def save_def
  logTransition_def escalate_def autoClose_def reason_or_default_def engine_entry_def

lemma first_call:
  "processAlert (calm 6000000) (overspeed_alert ''A3'' 6000000)
     (engine_with [seed_overspeed_rule]
        [overspeed_alert ''A1'' 4200000, overspeed_alert ''A2'' 5400000,
         overspeed_alert ''A3'' 6000000])
   = (Success True
        \<lparr>shouldEscalate = True, shouldAutoClose = False,
         reason = Some (EscalationSummary 3 ''overspeed'' 60),
         rule = Some seed_overspeed_rule\<rparr>,
      escalate 6000000 (Some (EscalationSummary 3 ''overspeed'' 60))
        (overspeed_alert ''A3'' 6000000),
      (engine_with [seed_overspeed_rule]
        [overspeed_alert ''A1'' 4200000, overspeed_alert ''A2'' 5400000,
         escalate 6000000 (Some (EscalationSummary 3 ''overspeed'' 60))
           (overspeed_alert ''A3'' 6000000)])
       \<lparr>historyLog :=
          [\<lparr>history.alertId = ''A3'', fromStatus = Some OPEN, toStatus = ESCALATED,
            history.reason = Some (EscalationSummary 3 ''overspeed'' 60),
            triggeredBy = RULE_ENGINE, userId = None,
            metadata_rule = Some ''RULE_OVERSPEED_001''\<rparr>]\<rparr>)"
  by (simp add: run_defs eval_defs sample_defs)

lemma second_call:
  "processAlert (calm 6060000)
     (escalate 6000000 (Some (EscalationSummary 3 ''overspeed'' 60))
        (overspeed_alert ''A3'' 6000000))
     ((engine_with [seed_overspeed_rule]
        [overspeed_alert ''A1'' 4200000, overspeed_alert ''A2'' 5400000,
         escalate 6000000 (Some (EscalationSummary 3 ''overspeed'' 60))
           (overspeed_alert ''A3'' 6000000)])
       \<lparr>historyLog :=
          [\<lparr>history.alertId = ''A3'', fromStatus = Some OPEN, toStatus = ESCALATED,
            history.reason = Some (EscalationSummary 3 ''overspeed'' 60),
            triggeredBy = RULE_ENGINE, userId = None,
            metadata_rule = Some ''RULE_OVERSPEED_001''\<rparr>]\<rparr>)
   = (Success False
        \<lparr>shouldEscalate = True, shouldAutoClose = False,
         reason = Some (EscalationSummary 3 ''overspeed'' 60),
         rule = Some seed_overspeed_rule\<rparr>,
      escalate 6000000 (Some (EscalationSummary 3 ''overspeed'' 60))
        (overspeed_alert ''A3'' 6000000),
      (engine_with [seed_overspeed_rule]
        [overspeed_alert ''A1'' 4200000, overspeed_alert ''A2'' 5400000,
         escalate 6000000 (Some (EscalationSummary 3 ''overspeed'' 60))
           (overspeed_alert ''A3'' 6000000)])
       \<lparr>historyLog :=
          [\<lparr>history.alertId = ''A3'', fromStatus = Some OPEN, toStatus = ESCALATED,
            history.reason = Some (EscalationSummary 3 ''overspeed'' 60),
            triggeredBy = RULE_ENGINE, userId = None,
            metadata_rule = Some ''RULE_OVERSPEED_001''\<rparr>]\<rparr>)"
  by (simp add: run_defs eval_defs sample_defs)

text \<open>
  The third overspeed alert of a driver within the hour is escalated by the first call;
  a second call a minute later returns unmodified, and the log holds the one entry.
\<close>

theorem second_call_does_not_escalate_witness:
  "status (overspeed_alert ''A3'' 6000000) = OPEN
   \<and> status (escalate 6000000 (Some (EscalationSummary 3 ''overspeed'' 60))
               (overspeed_alert ''A3'' 6000000)) = ESCALATED
   \<and> (\<exists>es. [\<lparr>history.alertId = ''A3'', fromStatus = Some OPEN, toStatus = ESCALATED,
              history.reason = Some (EscalationSummary 3 ''overspeed'' 60),
              triggeredBy = RULE_ENGINE, userId = None,
              metadata_rule = Some ''RULE_OVERSPEED_001''\<rparr>] = es
            \<and> length (filter open_to_escalated es) = 1)"
proof -
  have opn: "status (overspeed_alert ''A3'' 6000000) = OPEN"
    by (simp add: sample_defs)
  have moved: "status (escalate 6000000 (Some (EscalationSummary 3 ''overspeed'' 60))
                 (overspeed_alert ''A3'' 6000000)) = ESCALATED"
    by (simp add: escalate_def sample_defs)
  note both = second_call_does_not_escalate [OF opn first_call moved second_call, THEN conjunct1]
  have empty: "historyLog (engine_with rs xs) = []" for rs xs
    by (simp add: engine_with_def)
  from both opn moved show ?thesis by (simp add: empty)
qed

lemma first_call_log_rejected:
  "processAlert ((calm 6000000)\<lparr>log_escalated_fails := True\<rparr>) (overspeed_alert ''A3'' 6000000)
     (engine_with [seed_overspeed_rule]
        [overspeed_alert ''A1'' 4200000, overspeed_alert ''A2'' 5400000,
         overspeed_alert ''A3'' 6000000])
   = (Failure StoreError,
      escalate 6000000 (Some (EscalationSummary 3 ''overspeed'' 60))
        (overspeed_alert ''A3'' 6000000),
      engine_with [seed_overspeed_rule]
        [overspeed_alert ''A1'' 4200000, overspeed_alert ''A2'' 5400000,
         escalate 6000000 (Some (EscalationSummary 3 ''overspeed'' 60))
           (overspeed_alert ''A3'' 6000000)])"
  by (simp add: run_defs eval_defs sample_defs)

lemma second_call_after_rejection:
  "processAlert (calm 6060000)
     (escalate 6000000 (Some (EscalationSummary 3 ''overspeed'' 60))
        (overspeed_alert ''A3'' 6000000))
     (engine_with [seed_overspeed_rule]
        [overspeed_alert ''A1'' 4200000, overspeed_alert ''A2'' 5400000,
         escalate 6000000 (Some (EscalationSummary 3 ''overspeed'' 60))
           (overspeed_alert ''A3'' 6000000)])
   = (Success False
        \<lparr>shouldEscalate = True, shouldAutoClose = False,
         reason = Some (EscalationSummary 3 ''overspeed'' 60),
         rule = Some seed_overspeed_rule\<rparr>,
      escalate 6000000 (Some (EscalationSummary 3 ''overspeed'' 60))
        (overspeed_alert ''A3'' 6000000),
      engine_with [seed_overspeed_rule]
        [overspeed_alert ''A1'' 4200000, overspeed_alert ''A2'' 5400000,
         escalate 6000000 (Some (EscalationSummary 3 ''overspeed'' 60))
           (overspeed_alert ''A3'' 6000000)])"
  by (simp add: run_defs eval_defs sample_defs)

text \<open>
  C4, counterexample to the claim as stated. The first call escalates the third alert
  and saves it, but its history write is rejected: the call returns failure with the
  document and the stored copy ESCALATED. The second call is a no-op, and after both
  calls the history log is empty: it holds no entry from OPEN to ESCALATED.
\<close>

theorem second_call_counterexample:
  "status (overspeed_alert ''A3'' 6000000) = OPEN
   \<and> processAlert ((calm 6000000)\<lparr>log_escalated_fails := True\<rparr>)
        (overspeed_alert ''A3'' 6000000)
        (engine_with [seed_overspeed_rule]
           [overspeed_alert ''A1'' 4200000, overspeed_alert ''A2'' 5400000,
            overspeed_alert ''A3'' 6000000])
     = (Failure StoreError,
        escalate 6000000 (Some (EscalationSummary 3 ''overspeed'' 60))
          (overspeed_alert ''A3'' 6000000),
        engine_with [seed_overspeed_rule]
          [overspeed_alert ''A1'' 4200000, overspeed_alert ''A2'' 5400000,
           escalate 6000000 (Some (EscalationSummary 3 ''overspeed'' 60))
             (overspeed_alert ''A3'' 6000000)])
   \<and> status (escalate 6000000 (Some (EscalationSummary 3 ''overspeed'' 60))
               (overspeed_alert ''A3'' 6000000)) = ESCALATED
   \<and> historyLog (snd (snd (processAlert (calm 6060000)
        (escalate 6000000 (Some (EscalationSummary 3 ''overspeed'' 60))
           (overspeed_alert ''A3'' 6000000))
        (engine_with [seed_overspeed_rule]
           [overspeed_alert ''A1'' 4200000, overspeed_alert ''A2'' 5400000,
            escalate 6000000 (Some (EscalationSummary 3 ''overspeed'' 60))
              (overspeed_alert ''A3'' 6000000)])))) = []"
proof -
  have opn: "status (overspeed_alert ''A3'' 6000000) = OPEN"
    by (simp add: sample_defs)
  have moved: "status (escalate 6000000 (Some (EscalationSummary 3 ''overspeed'' 60))
                 (overspeed_alert ''A3'' 6000000)) = ESCALATED"
    by (simp add: escalate_def sample_defs)
  have empty: "historyLog (engine_with rs xs) = []" for rs xs
    by (simp add: engine_with_def)
  from opn moved first_call_log_rejected show ?thesis
    by (simp add: second_call_after_rejection empty)
qed

section \<open>Batches\<close>

lemma tally_counts:
  "processed (tally r a res) = processed res + (if succeeded r then 1 else 0)"
  "errors (tally r a res) = errors res + (if succeeded r then 0 else 1)"
  by (cases r; simp add: tally_def Let_def)+

lemma loop_counts:
  "processed (fst (processBatch_loop es alerts res s)) =
     processed res + length (filter succeeded (batch_outcomes es alerts s))
   \<and> errors (fst (processBatch_loop es alerts res s)) =
     errors res + length (filter (\<lambda>r. \<not> succeeded r) (batch_outcomes es alerts s))"
proof (induction alerts arbitrary: es res s)
  case Nil
  show ?case by simp
next
  case (Cons a alerts)
  obtain r a' s' where step: "processAlert (es 0) a s = (r, a', s')"
    by (cases "processAlert (es 0) a s") auto
  show ?case
    using Cons.IH [of "\<lambda>i. es (Suc i)" "tally r a' res" s']
    by (simp add: step tally_counts)
qed

lemma length_batch_outcomes: "length (batch_outcomes es alerts s) = length alerts"
proof (induction alerts arbitrary: es s)
  case Nil
  show ?case by simp
next
  case (Cons a alerts)
  obtain r a' s' where step: "processAlert (es 0) a s = (r, a', s')"
    by (cases "processAlert (es 0) a s") auto
  show ?case using Cons.IH [of "\<lambda>i. es (Suc i)" s'] by (simp add: step)
qed

lemma batch_counts:
  "processed (fst (processBatch es alerts s)) = length (filter succeeded (batch_outcomes es alerts s))"
  "errors (fst (processBatch es alerts s)) =
     length (filter (\<lambda>r. \<not> succeeded r) (batch_outcomes es alerts s))"
  using loop_counts [of es alerts
          "\<lparr>processed = 0, escalated = 0, autoClosed = 0, errors = 0\<rparr>" s]
  by (simp_all add: processBatch_def)

lemma processAlert_evaluation_fails:
  "fst (evaluateAlert e a s) = Inl err \<Longrightarrow> fst (processAlert e a s) = Failure err"
  by (cases "evaluateAlert e a s") (simp add: processAlert_def)

lemma loop_step_failure:
  assumes "fst (processAlert (es 0) a s) = Failure err"
  shows "processBatch_loop es (a # rest) res s =
           processBatch_loop (\<lambda>i. es (Suc i)) rest (res\<lparr>errors := errors res + 1\<rparr>)
             (snd (snd (processAlert (es 0) a s)))"
  using assms by (cases "processAlert (es 0) a s") (simp add: tally_def)

text \<open>
  C5. \<open>processBatch\<close> handles each alert on its own. Its \<open>processed\<close> count is the number
  of alerts for which \<open>processAlert\<close> succeeded and its \<open>errors\<close> count the number for which
  it failed, one outcome per alert of the list. An exception in the evaluation, or in
  saving or logging in either branch, makes \<open>processAlert\<close> a failure; a failure adds
  one to \<open>errors\<close> and to nothing else, and the
  loop goes on with the remaining alerts from the state the failing call left. The
  function has a result for every list (it is total and has no error result); with five
  alerts of which exactly one fails it reports 4 processed and 1 error.
\<close>

theorem processBatch_isolates_failures:
  "processed (fst (processBatch es alerts s)) =
     length (filter succeeded (batch_outcomes es alerts s))
   \<and> errors (fst (processBatch es alerts s)) =
     length (filter (\<lambda>r. \<not> succeeded r) (batch_outcomes es alerts s))
   \<and> length (batch_outcomes es alerts s) = length alerts
   \<and> (fst (evaluateAlert (es 0) a s) = Inl err \<longrightarrow> fst (processAlert (es 0) a s) = Failure err)
   \<and> (evaluateAlert (es 0) a s = (Inr ev, s1) \<and> fst (escalate_branch (es 0) ev a s1) = Inl err \<longrightarrow>
        fst (processAlert (es 0) a s) = Failure err)
   \<and> (evaluateAlert (es 0) a s = (Inr ev, s1) \<and> escalate_branch (es 0) ev a s1 = (Inr m, a2, s2)
        \<and> fst (autoClose_branch (es 0) ev m a2 s2) = Inl err \<longrightarrow>
        fst (processAlert (es 0) a s) = Failure err)
   \<and> (fst (processAlert (es 0) a s) = Failure err \<longrightarrow>
        processBatch_loop es (a # rest) res s =
          processBatch_loop (\<lambda>i. es (Suc i)) rest (res\<lparr>errors := errors res + 1\<rparr>)
            (snd (snd (processAlert (es 0) a s))))
   \<and> (length alerts = 5
        \<and> length (filter (\<lambda>r. \<not> succeeded r) (batch_outcomes es alerts s)) = 1 \<longrightarrow>
        processed (fst (processBatch es alerts s)) = 4
        \<and> errors (fst (processBatch es alerts s)) = 1)"
proof -
  have split: "length (filter succeeded xs) + length (filter (\<lambda>r. \<not> succeeded r) xs) = length xs"
    for xs :: "result list"
    by (rule sum_length_filter_compl)
  have five: "processed (fst (processBatch es alerts s)) = 4
        \<and> errors (fst (processBatch es alerts s)) = 1"
    if "length alerts = 5"
       "length (filter (\<lambda>r. \<not> succeeded r) (batch_outcomes es alerts s)) = 1"
    using that split [of "batch_outcomes es alerts s"]
    by (simp add: batch_counts length_batch_outcomes)
  have persist1: "fst (processAlert (es 0) a s) = Failure err"
    if "evaluateAlert (es 0) a s = (Inr ev, s1)" "fst (escalate_branch (es 0) ev a s1) = Inl err"
    using that by (cases "escalate_branch (es 0) ev a s1") (simp add: processAlert_def)
  have persist2: "fst (processAlert (es 0) a s) = Failure err"
    if "evaluateAlert (es 0) a s = (Inr ev, s1)" "escalate_branch (es 0) ev a s1 = (Inr m, a2, s2)"
       "fst (autoClose_branch (es 0) ev m a2 s2) = Inl err"
    using that by (cases "autoClose_branch (es 0) ev m a2 s2") (simp add: processAlert_def)
  show ?thesis
    using five loop_step_failure [of es a s err rest res]
          processAlert_evaluation_fails [of "es 0" a s err] persist1 persist2
    by (simp add: batch_counts length_batch_outcomes)
qed

lemma stale_outcomes:
  "map succeeded
     (batch_outcomes third_save_fails stale_batch (engine_with [seed_overspeed_rule] stale_batch))
   = [True, True, False, True, True]"
  by (simp add: third_save_fails_def stale_batch_def run_defs eval_defs sample_defs)

lemma stale_failures:
  "length (filter (\<lambda>r. \<not> succeeded r)
     (batch_outcomes third_save_fails stale_batch (engine_with [seed_overspeed_rule] stale_batch)))
   = 1"
proof -
  have eq: "length (filter (\<lambda>r. \<not> succeeded r) xs) = length (filter Not (map succeeded xs))"
    for xs :: "result list"
    by (simp add: filter_map comp_def)
  show ?thesis unfolding eq stale_outcomes by simp
qed

text \<open>
  Five stale alerts; saving the third fails and the others are auto-closed. And a batch
  of one alert whose count query is rejected: the exception ends as one error.
\<close>

theorem processBatch_isolates_failures_witness:
  "length stale_batch = 5
   \<and> map succeeded
       (batch_outcomes third_save_fails stale_batch
          (engine_with [seed_overspeed_rule] stale_batch))
     = [True, True, False, True, True]
   \<and> processed (fst (processBatch third_save_fails stale_batch
                        (engine_with [seed_overspeed_rule] stale_batch))) = 4
   \<and> errors (fst (processBatch third_save_fails stale_batch
                     (engine_with [seed_overspeed_rule] stale_batch))) = 1
   \<and> fst (processBatch (\<lambda>i. (calm 6000000)\<lparr>count_fails := True\<rparr>)
             [overspeed_alert ''A1'' 6000000]
             (engine_with [seed_overspeed_rule] [overspeed_alert ''A1'' 6000000]))
     = \<lparr>processed = 0, escalated = 0, autoClosed = 0, errors = 1\<rparr>"
proof -
  have five: "length stale_batch = 5" by (simp add: stale_batch_def)
  note whole = processBatch_isolates_failures
                 [where es = third_save_fails and alerts = stale_batch
                    and s = "engine_with [seed_overspeed_rule] stale_batch"]
  note example = whole [THEN conjunct2, THEN conjunct2, THEN conjunct2, THEN conjunct2,
                        THEN conjunct2, THEN conjunct2, THEN conjunct2, THEN mp]
  let ?e = "(calm 6000000)\<lparr>count_fails := True\<rparr>"
  let ?a = "overspeed_alert ''A1'' 6000000"
  let ?s = "engine_with [seed_overspeed_rule] [?a]"
  let ?zero = "\<lparr>processed = 0, escalated = 0, autoClosed = 0, errors = 0\<rparr>"
  note single = processBatch_isolates_failures
                  [where es = "\<lambda>i. ?e" and a = ?a and s = ?s and err = StoreError
                     and rest = "[]" and res = ?zero]
  have thrown: "fst (evaluateAlert ?e ?a ?s) = Inl StoreError"
    by (simp add: eval_defs sample_defs)
  have failed: "fst (processAlert ?e ?a ?s) = Failure StoreError"
    using single [THEN conjunct2, THEN conjunct2, THEN conjunct2, THEN conjunct1, THEN mp,
                  OF thrown] .
  have one: "fst (processBatch (\<lambda>i. ?e) [?a] ?s)
               = \<lparr>processed = 0, escalated = 0, autoClosed = 0, errors = 1\<rparr>"
    using single [THEN conjunct2, THEN conjunct2, THEN conjunct2, THEN conjunct2,
                  THEN conjunct2, THEN conjunct2, THEN conjunct1, THEN mp, OF failed]
    by (simp add: processBatch_def)
  from example [OF conjI [OF five stale_failures]] five stale_outcomes one
  show ?thesis by simp
qed

lemma tally_modified:
  "escalated (tally r d res) =
     escalated res + (if was_modified r \<and> status d = ESCALATED then 1 else 0)"
  "autoClosed (tally r d res) =
     autoClosed res + (if was_modified r \<and> status d = AUTO_CLOSED then 1 else 0)"
  by (cases r; simp add: tally_def Let_def)+

lemma loop_status_counts:
  "escalated (fst (processBatch_loop es alerts res s)) =
     escalated res
     + length (filter (\<lambda>(r, d). was_modified r \<and> status d = ESCALATED) (batch_trace es alerts s))
   \<and> autoClosed (fst (processBatch_loop es alerts res s)) =
     autoClosed res
     + length (filter (\<lambda>(r, d). was_modified r \<and> status d = AUTO_CLOSED) (batch_trace es alerts s))"
proof (induction alerts arbitrary: es res s)
  case Nil
  show ?case by simp
next
  case (Cons a alerts)
  obtain r a' s' where step: "processAlert (es 0) a s = (r, a', s')"
    by (cases "processAlert (es 0) a s") auto
  show ?case
    using Cons.IH [of "\<lambda>i. es (Suc i)" "tally r a' res" s']
    by (simp add: step tally_modified)
qed

lemma batch_trace_outcomes: "map fst (batch_trace es alerts s) = batch_outcomes es alerts s"
proof (induction alerts arbitrary: es s)
  case Nil
  show ?case by simp
next
  case (Cons a alerts)
  obtain r a' s' where step: "processAlert (es 0) a s = (r, a', s')"
    by (cases "processAlert (es 0) a s") auto
  show ?case using Cons.IH [of "\<lambda>i. es (Suc i)" s'] by (simp add: step)
qed

text \<open>
  An OPEN alert whose evaluation asks for escalation and whose document ends AUTO_CLOSED
  has been escalated, with the entry logged, and then auto-closed. The call returns
  success, or failure when the save or the history write of the auto-closure was
  rejected.
\<close>

lemma escalated_then_closed:
  assumes opn: "status a = OPEN"
      and ev: "evaluateAlert e a s = (Inr ev, s1)"
      and esc: "shouldEscalate ev"
      and run: "processAlert e a s = (r, a', s')"
      and fin: "status a' = AUTO_CLOSED"
  shows "(\<exists>h more. historyLog s' = historyLog s @ h # more \<and> open_to_escalated h)
         \<and> (r = Success True ev \<or> r = Failure StoreError)
         \<and> (succeeded r \<longrightarrow>
              (\<exists>h1 h2. historyLog s' = historyLog s @ [h1, h2]
                 \<and> fromStatus h1 = Some OPEN \<and> toStatus h1 = ESCALATED
                 \<and> fromStatus h2 = Some ESCALATED \<and> toStatus h2 = AUTO_CLOSED))"
proof -
  let ?a1 = "escalate (t_escalate e) (reason ev) a"
  let ?a2 = "autoClose (t_autoClose e) (reason ev) ?a1"
  let ?h1 = "engine_entry ?a1 OPEN ESCALATED ev"
  let ?h2 = "engine_entry ?a2 ESCALATED AUTO_CLOSED ev"
  have h0: "historyLog s1 = historyLog s"
    using evaluateAlert_stores [of e a s] ev by simp
  have st1: "status ?a1 = ESCALATED" using opn by (simp add: escalate_fields)
  have o1: "open_to_escalated ?h1"
    by (simp add: open_to_escalated_def engine_entry_def)
  have ends: "fromStatus ?h1 = Some OPEN" "toStatus ?h1 = ESCALATED"
             "fromStatus ?h2 = Some ESCALATED" "toStatus ?h2 = AUTO_CLOSED"
    by (simp_all add: engine_entry_def)
  note E = escalate_branch_fired [OF esc opn, of e s1]
  have done1: "\<not> save_escalated_fails e \<and> \<not> log_escalated_fails e"
  proof (rule ccontr)
    assume "\<not> ?thesis"
    then have "fst (escalate_branch e ev a s1) = Inl StoreError
               \<and> fst (snd (escalate_branch e ev a s1)) = ?a1"
      unfolding E by auto
    then have "a' = ?a1"
      using run by (cases "escalate_branch e ev a s1") (simp add: processAlert_def ev)
    with st1 fin show False by simp
  qed
  obtain t1 where b1: "escalate_branch e ev a s1 = (Inr True, ?a1, t1)"
    and l1: "historyLog t1 = historyLog s @ [?h1]"
    using done1 h0 unfolding E by simp
  have cls: "shouldAutoClose ev"
  proof (rule ccontr)
    assume "\<not> shouldAutoClose ev"
    then have "autoClose_branch e ev True ?a1 t1 = (Inr True, ?a1, t1)"
      by (simp add: autoClose_branch_idle)
    with run have "a' = ?a1" by (simp add: processAlert_def ev b1)
    with st1 fin show False by simp
  qed
  have st1': "status ?a1 = OPEN \<or> status ?a1 = ESCALATED" using st1 by simp
  note C = autoClose_branch_fired [OF cls st1', of e True t1]
  show ?thesis
  proof (cases "save_autoClosed_fails e \<or> log_autoClosed_fails e")
    case True
    then have "fst (autoClose_branch e ev True ?a1 t1) = Inl StoreError
               \<and> historyLog (snd (snd (autoClose_branch e ev True ?a1 t1))) = historyLog t1"
      unfolding C by auto
    then have "r = Failure StoreError \<and> historyLog s' = historyLog t1"
      using run by (cases "autoClose_branch e ev True ?a1 t1") (simp add: processAlert_def ev b1)
    with l1 o1 show ?thesis by auto
  next
    case False
    then have "fst (autoClose_branch e ev True ?a1 t1) = Inr True
               \<and> historyLog (snd (snd (autoClose_branch e ev True ?a1 t1)))
                   = historyLog t1 @ [?h2]"
      unfolding C by (simp add: st1)
    then have "r = Success True ev \<and> historyLog s' = historyLog t1 @ [?h2]"
      using run by (cases "autoClose_branch e ev True ?a1 t1") (simp add: processAlert_def ev b1)
    then have res: "r = Success True ev" and log: "historyLog s' = historyLog s @ [?h1, ?h2]"
      using l1 by simp_all
    have first: "\<exists>h more. historyLog s' = historyLog s @ h # more \<and> open_to_escalated h"
      using log o1 by auto
    have two: "\<exists>h1 h2. historyLog s' = historyLog s @ [h1, h2]
                 \<and> fromStatus h1 = Some OPEN \<and> toStatus h1 = ESCALATED
                 \<and> fromStatus h2 = Some ESCALATED \<and> toStatus h2 = AUTO_CLOSED"
      using log ends by blast
    from first res two show ?thesis by blast
  qed
qed

text \<open>
  C10, as amended. The batch counters follow the status of the document after
  \<open>processAlert\<close> returns: over a batch, \<open>escalated\<close> is the number of alerts whose call
  returned modified and left the document ESCALATED, and \<open>autoClosed\<close> the number whose
  call returned modified and left it AUTO_CLOSED. For an OPEN alert that one call both
  escalates and auto-closes (final status AUTO_CLOSED), the entry from OPEN to ESCALATED
  is in the history log and \<open>escalated\<close> is not incremented; when the call returns success
  the iteration adds one to \<open>processed\<close> and to \<open>autoClosed\<close> and to nothing else, and when
  the save or the history write of the auto-closure was rejected it adds one to \<open>errors\<close>
  and to nothing else. For every list, \<open>processed\<close> plus \<open>errors\<close> is the length of the
  list.
\<close>

theorem processBatch_counts_final_status:
  "escalated (fst (processBatch es alerts s0)) =
     length (filter (\<lambda>(r, d). was_modified r \<and> status d = ESCALATED) (batch_trace es alerts s0))
   \<and> autoClosed (fst (processBatch es alerts s0)) =
     length (filter (\<lambda>(r, d). was_modified r \<and> status d = AUTO_CLOSED)
               (batch_trace es alerts s0))
   \<and> map fst (batch_trace es alerts s0) = batch_outcomes es alerts s0
   \<and> (status a = OPEN \<and> evaluateAlert (es 0) a s = (Inr ev, s1) \<and> shouldEscalate ev
        \<and> processAlert (es 0) a s = (r, a', s') \<and> status a' = AUTO_CLOSED \<longrightarrow>
        (\<exists>h more. historyLog s' = historyLog s @ h # more \<and> open_to_escalated h)
        \<and> (r = Success True ev \<or> r = Failure StoreError)
        \<and> (succeeded r \<longrightarrow>
             (\<exists>h1 h2. historyLog s' = historyLog s @ [h1, h2]
                \<and> fromStatus h1 = Some OPEN \<and> toStatus h1 = ESCALATED
                \<and> fromStatus h2 = Some ESCALATED \<and> toStatus h2 = AUTO_CLOSED))
        \<and> tally r a' res =
            (if succeeded r
             then res\<lparr>processed := processed res + 1, autoClosed := autoClosed res + 1\<rparr>
             else res\<lparr>errors := errors res + 1\<rparr>)
        \<and> escalated (tally r a' res) = escalated res
        \<and> processBatch_loop es (a # rest) res s
            = processBatch_loop (\<lambda>i. es (Suc i)) rest (tally r a' res) s')
   \<and> processed (fst (processBatch es alerts s0)) + errors (fst (processBatch es alerts s0))
       = length alerts"
proof -
  have closed: "escalated (fst (processBatch es alerts s0)) =
     length (filter (\<lambda>(r, d). was_modified r \<and> status d = ESCALATED) (batch_trace es alerts s0))"
    "autoClosed (fst (processBatch es alerts s0)) =
     length (filter (\<lambda>(r, d). was_modified r \<and> status d = AUTO_CLOSED)
               (batch_trace es alerts s0))"
    using loop_status_counts [of es alerts
            "\<lparr>processed = 0, escalated = 0, autoClosed = 0, errors = 0\<rparr>" s0]
    by (simp_all add: processBatch_def)
  have both: "(\<exists>h more. historyLog s' = historyLog s @ h # more \<and> open_to_escalated h)
        \<and> (r = Success True ev \<or> r = Failure StoreError)
        \<and> (succeeded r \<longrightarrow>
             (\<exists>h1 h2. historyLog s' = historyLog s @ [h1, h2]
                \<and> fromStatus h1 = Some OPEN \<and> toStatus h1 = ESCALATED
                \<and> fromStatus h2 = Some ESCALATED \<and> toStatus h2 = AUTO_CLOSED))
        \<and> tally r a' res =
            (if succeeded r
             then res\<lparr>processed := processed res + 1, autoClosed := autoClosed res + 1\<rparr>
             else res\<lparr>errors := errors res + 1\<rparr>)
        \<and> escalated (tally r a' res) = escalated res
        \<and> processBatch_loop es (a # rest) res s
            = processBatch_loop (\<lambda>i. es (Suc i)) rest (tally r a' res) s'"
    if opn: "status a = OPEN" and ev: "evaluateAlert (es 0) a s = (Inr ev, s1)"
      and esc: "shouldEscalate ev" and run: "processAlert (es 0) a s = (r, a', s')"
      and fin: "status a' = AUTO_CLOSED"
  proof -
    note etc = escalated_then_closed [OF opn ev esc run fin]
    have res: "r = Success True ev \<or> r = Failure StoreError" using etc by blast
    have tl: "tally r a' res =
            (if succeeded r
             then res\<lparr>processed := processed res + 1, autoClosed := autoClosed res + 1\<rparr>
             else res\<lparr>errors := errors res + 1\<rparr>)"
      using res fin by (auto simp: tally_def Let_def)
    have same: "escalated (tally r a' res) = escalated res"
      unfolding tl by simp
    have loop: "processBatch_loop es (a # rest) res s
            = processBatch_loop (\<lambda>i. es (Suc i)) rest (tally r a' res) s'"
      by (simp add: run)
    from etc tl same loop show ?thesis by blast
  qed
  have total: "processed (fst (processBatch es alerts s0)) + errors (fst (processBatch es alerts s0))
       = length alerts"
    using sum_length_filter_compl [of succeeded "batch_outcomes es alerts s0"]
    by (simp add: batch_counts length_batch_outcomes)
  from closed batch_trace_outcomes [of es alerts s0] both total show ?thesis by blast
qed

lemma slow_alert_result:
  "fst (processAlert (calm 6000000) (slow_alert 6000000)
          (engine_with [low_overspeed_rule] [slow_alert 6000000]))
   = Success True
       \<lparr>shouldEscalate = True, shouldAutoClose = True,
        reason = Some (ConditionMet ''speed_normalized''),
        rule = Some low_overspeed_rule\<rparr>"
  by (simp add: run_defs eval_defs sample_defs slow_alert_def js_le_def js_less_def)

lemma slow_alert_closed:
  "status (fst (snd (processAlert (calm 6000000) (slow_alert 6000000)
          (engine_with [low_overspeed_rule] [slow_alert 6000000])))) = AUTO_CLOSED"
  by (simp add: run_defs eval_defs sample_defs slow_alert_def js_le_def js_less_def)

text \<open>
  A batch of one alert that is escalated and auto-closed in the same call counts as one
  auto-closed and no escalated alert, with both transitions in the log; a batch of one
  alert that is escalated and stays so counts as one escalated alert.
\<close>

theorem processBatch_counts_final_status_witness:
  "fst (processBatch every_call_calm [slow_alert 6000000]
          (engine_with [low_overspeed_rule] [slow_alert 6000000]))
     = \<lparr>processed = 1, escalated = 0, autoClosed = 1, errors = 0\<rparr>
   \<and> length (historyLog (snd (processBatch every_call_calm [slow_alert 6000000]
                            (engine_with [low_overspeed_rule] [slow_alert 6000000])))) = 2
   \<and> escalated (fst (processBatch every_call_calm [overspeed_alert ''A3'' 6000000]
          (engine_with [seed_overspeed_rule]
             [overspeed_alert ''A1'' 4200000, overspeed_alert ''A2'' 5400000,
              overspeed_alert ''A3'' 6000000]))) = 1"
proof -
  have opn3: "status (overspeed_alert ''A3'' 6000000) = OPEN"
    by (simp add: sample_defs)
  have trace: "map (\<lambda>(r, d). (was_modified r, status d))
     (batch_trace every_call_calm [overspeed_alert ''A3'' 6000000]
        (engine_with [seed_overspeed_rule]
           [overspeed_alert ''A1'' 4200000, overspeed_alert ''A2'' 5400000,
            overspeed_alert ''A3'' 6000000])) = [(True, ESCALATED)]"
    using opn3 by (simp add: every_call_calm_def first_call escalate_def)
  have counted: "length (filter (\<lambda>(r, d). was_modified r \<and> status d = ESCALATED) xs)
       = length (filter (\<lambda>(m, st). m \<and> st = ESCALATED)
                   (map (\<lambda>(r, d). (was_modified r, status d)) xs))"
    for xs :: "(result \<times> alert) list"
    by (induction xs) auto
  have one: "escalated (fst (processBatch every_call_calm [overspeed_alert ''A3'' 6000000]
          (engine_with [seed_overspeed_rule]
             [overspeed_alert ''A1'' 4200000, overspeed_alert ''A2'' 5400000,
              overspeed_alert ''A3'' 6000000]))) = 1"
    unfolding processBatch_counts_final_status [THEN conjunct1] counted trace by simp
  let ?s = "engine_with [low_overspeed_rule] [slow_alert 6000000]"
  let ?ev = "\<lparr>shouldEscalate = True, shouldAutoClose = True,
              reason = Some (ConditionMet ''speed_normalized''),
              rule = Some low_overspeed_rule\<rparr>"
  let ?p = "processAlert (calm 6000000) (slow_alert 6000000) ?s"
  let ?zero = "\<lparr>processed = 0, escalated = 0, autoClosed = 0, errors = 0\<rparr>"
  have hyp: "status (slow_alert 6000000) = OPEN
             \<and> evaluateAlert (every_call_calm 0) (slow_alert 6000000) ?s = (Inr ?ev, ?s)
             \<and> shouldEscalate ?ev
             \<and> processAlert (every_call_calm 0) (slow_alert 6000000) ?s
                 = (Success True ?ev, fst (snd ?p), snd (snd ?p))
             \<and> status (fst (snd ?p)) = AUTO_CLOSED"
  proof -
    have calm0: "every_call_calm 0 = calm 6000000" by (simp add: every_call_calm_def)
    have opn: "status (slow_alert 6000000) = OPEN"
      by (simp add: slow_alert_def new_alert_def)
    have ev: "evaluateAlert (every_call_calm 0) (slow_alert 6000000) ?s = (Inr ?ev, ?s)"
      unfolding calm0 by (rule slow_alert_evaluation)
    have run: "processAlert (every_call_calm 0) (slow_alert 6000000) ?s
                 = (Success True ?ev, fst (snd ?p), snd (snd ?p))"
      unfolding calm0 using slow_alert_result by (cases ?p) simp
    have esc: "shouldEscalate ?ev" by simp
    from opn ev esc run slow_alert_closed show ?thesis by (intro conjI)
  qed
  note whole = processBatch_counts_final_status
                 [where es = every_call_calm and a = "slow_alert 6000000" and s = ?s
                    and r = "Success True ?ev" and ev = ?ev and ?s1.0 = ?s
                    and a' = "fst (snd ?p)" and s' = "snd (snd ?p)"
                    and res = ?zero and rest = "[]"]
  note step = whole [THEN conjunct2, THEN conjunct2, THEN conjunct2, THEN conjunct1, THEN mp,
                     OF hyp]
  have loop: "processBatch every_call_calm [slow_alert 6000000] ?s
     = (?zero\<lparr>processed := processed ?zero + 1, autoClosed := autoClosed ?zero + 1\<rparr>,
        snd (snd ?p))"
    using step by (simp add: processBatch_def)
  have log: "\<exists>h1 h2. historyLog (snd (snd ?p)) = historyLog ?s @ [h1, h2]"
    using step by auto
  have empty: "historyLog ?s = []" by (simp add: engine_with_def)
  from log one show ?thesis unfolding loop empty by auto
qed

lemma closure_log_rejected_run:
  "fst (processAlert (closure_log_rejected 0) (slow_alert 6000000)
          (engine_with [low_overspeed_rule] [slow_alert 6000000])) = Failure StoreError
   \<and> status (fst (snd (processAlert (closure_log_rejected 0) (slow_alert 6000000)
          (engine_with [low_overspeed_rule] [slow_alert 6000000])))) = AUTO_CLOSED
   \<and> length (filter open_to_escalated
        (historyLog (snd (snd (processAlert (closure_log_rejected 0) (slow_alert 6000000)
          (engine_with [low_overspeed_rule] [slow_alert 6000000])))))) = 1"
  by (simp add: closure_log_rejected_def run_defs eval_defs sample_defs slow_alert_def
                js_le_def js_less_def open_to_escalated_def)

text \<open>
  C10, counterexample to the claim as stated. The alert is escalated (with its entry
  logged) and then auto-closed in one call, but the history write of the auto-closure is
  rejected: the document ends AUTO_CLOSED, the call returns failure and the batch counts
  one error and no auto-closed alert.
\<close>

theorem processBatch_counts_counterexample:
  "fst (processAlert (closure_log_rejected 0) (slow_alert 6000000)
          (engine_with [low_overspeed_rule] [slow_alert 6000000])) = Failure StoreError
   \<and> status (fst (snd (processAlert (closure_log_rejected 0) (slow_alert 6000000)
          (engine_with [low_overspeed_rule] [slow_alert 6000000])))) = AUTO_CLOSED
   \<and> length (filter open_to_escalated
        (historyLog (snd (snd (processAlert (closure_log_rejected 0) (slow_alert 6000000)
          (engine_with [low_overspeed_rule] [slow_alert 6000000])))))) = 1
   \<and> fst (processBatch closure_log_rejected [slow_alert 6000000]
             (engine_with [low_overspeed_rule] [slow_alert 6000000]))
       = \<lparr>processed = 0, escalated = 0, autoClosed = 0, errors = 1\<rparr>"
proof -
  have "fst (processBatch closure_log_rejected [slow_alert 6000000]
             (engine_with [low_overspeed_rule] [slow_alert 6000000]))
       = \<lparr>processed = 0, escalated = 0, autoClosed = 0, errors = 1\<rparr>"
    using closure_log_rejected_run
    by (cases "processAlert (closure_log_rejected 0) (slow_alert 6000000)
                 (engine_with [low_overspeed_rule] [slow_alert 6000000])")
       (simp add: processBatch_def tally_def)
  with closure_log_rejected_run show ?thesis by simp
qed

end
